theory Spec2Isabelle
  imports Main "HOL-Library.AList" "HOL-Library.Word"
begin

section \<open>Errors, results and completions\<close>

text \<open>
  The three error classes of \<^verbatim>\<open>watch_stream.ts\<close>. The message of a \<^verbatim>\<open>WatchError\<close> or an
  \<^verbatim>\<open>InvalidBloomFilterError\<close> is kept as a constructor, with the interpolated number as its
  argument; the messages of \<^verbatim>\<open>TargetStateError\<close> are literal strings.
\<close>

datatype watch_msg =
    OpenOnce                          \<comment> \<open>open() may only be called once\<close>
  | OpenAfterClose                    \<comment> \<open>open() may not be called after close()\<close>
  | AddTargetBeforeOpen               \<comment> \<open>open() must be called before addTarget()\<close>
  | AddTargetAfterClose               \<comment> \<open>addTarget() may not be called after close()\<close>
  | RemoveTargetBeforeOpen            \<comment> \<open>open() must be called before removeTarget()\<close>
  | RemoveTargetAfterClose            \<comment> \<open>removeTarget() may not be called after close()\<close>
  | NotAddedByAddTarget int           \<comment> \<open>targetId N has not been added by addTarget()\<close>
  | UnknownTargetId int               \<comment> \<open>unknown targetId: N\<close>
  | TargetChangeUnknownTargetId int   \<comment> \<open>TargetChange specifies an unknown targetId: N\<close>
  | UnknownTargetChangeType string    \<comment> \<open>unknown targetChangeType: T\<close>
  | ExistenceFilterUnknownTargetId "int option"
                                      \<comment> \<open>ExistenceFilter specified an unknown targetId: N\<close>

datatype bloom_msg =
    InvalidPaddingSize int            \<comment> \<open>invalid padding size: N\<close>
  | InvalidHashCount int              \<comment> \<open>invalid hash count: N\<close>
  | HashCountBitmapMismatch int       \<comment> \<open>non-zero hash count N when bitmap size is zero\<close>

datatype error =
    WatchError watch_msg
  | TargetStateError string
  | InvalidBloomFilterError bloom_msg

text \<open>
  A call either returns a value or throws. Every operation below returns its outcome
  together with the state it leaves behind, because a JavaScript exception does not undo
  the assignments made before it.
\<close>

datatype 'a result = Return 'a | Throw error

text \<open>The error object a server attaches to a target change, or a transport reports on close.\<close>

datatype Status = Status int string

text \<open>
  Modelled from the spec: the class \<^verbatim>\<open>Deferred\<close> (test/util/promise) wraps a promise. It is
  the completion primitive of the specification: it starts unresolved, the first
  \<^verbatim>\<open>resolve\<close> or \<^verbatim>\<open>reject\<close> settles it, and a later call does not change a settled outcome.
\<close>

datatype 'a deferred = Pending | Resolved 'a | Rejected Status

fun resolve :: "'a \<Rightarrow> 'a deferred \<Rightarrow> 'a deferred" where
  "resolve v Pending = Resolved v"
| "resolve v (Resolved w) = Resolved w"
| "resolve v (Rejected e) = Rejected e"

fun reject :: "Status \<Rightarrow> 'a deferred \<Rightarrow> 'a deferred" where
  "reject e Pending = Rejected e"
| "reject e (Resolved w) = Resolved w"
| "reject e (Rejected e') = Rejected e'"

section \<open>Wire messages\<close>

type_synonym byte = "8 word"

text \<open>A resume token is a string or a byte array; only its presence matters here.\<close>

type_synonym token = string

record BitSequence =
  bs_bitmap :: "string option"
  bs_padding :: "int option"

record BloomFilterProto =
  bits :: "BitSequence option"
  bf_hashCount :: "int option"

record ExistenceFilter =
  ef_targetId :: "int option"
  unchangedNames :: "BloomFilterProto option"

record TargetChange =
  tc_targetIds :: "int list option"
  cause :: "Status option"
  targetChangeType :: "string option"
  tc_resumeToken :: "token option"

text \<open>
  The document of a change is read as \<^verbatim>\<open>documentChange.document!.name!\<close>: the name is
  taken to be present. \<^verbatim>\<open>DocumentRemove\<close> and \<^verbatim>\<open>DocumentDelete\<close> are read through the same
  two fields, \<^verbatim>\<open>removedTargetIds\<close> and \<^verbatim>\<open>document\<close>, and share one record.
\<close>

record DocumentChange =
  dc_targetIds :: "int list option"
  dc_removedTargetIds :: "int list option"
  dc_document_name :: string

record DocumentRemove =
  dr_removedTargetIds :: "int list option"
  dr_document :: string

record ListenResponse =
  targetChange :: "TargetChange option"
  documentChange :: "DocumentChange option"
  documentRemove :: "DocumentRemove option"
  documentDelete :: "DocumentRemove option"
  filter_msg :: "ExistenceFilter option"

section \<open>Existence filter\<close>

text \<open>
  Modelled from the spec: the class \<^verbatim>\<open>BloomFilter\<close> (src/remote/bloom_filter) is consumed as
  an opaque immutable value made of the byte buffer, the padding and the hash count.
\<close>

datatype BloomFilter = BloomFilter "byte list" int int

text \<open>
  \<^verbatim>\<open>normalizeByteString(bitmap).toUint8Array()\<close> (src/model/normalize) is not part of the
  source at hand; the decoding of the wire bitmap into bytes is the parameter
  \<open>normalizeByteString\<close>.
\<close>

text \<open>
  The three reads of the payload: \<^verbatim>\<open>unchangedNames.bits?.padding ?? 0\<close>,
  \<^verbatim>\<open>unchangedNames.hashCount ?? 0\<close> and \<^verbatim>\<open>unchangedNames.bits?.bitmap ?? ''\<close>.
\<close>

definition paddingOf :: "BloomFilterProto \<Rightarrow> int" where
  "paddingOf un =
     (case bits un of None \<Rightarrow> 0 | Some b \<Rightarrow> (case bs_padding b of None \<Rightarrow> 0 | Some p \<Rightarrow> p))"

definition hashCountOf :: "BloomFilterProto \<Rightarrow> int" where
  "hashCountOf un = (case bf_hashCount un of None \<Rightarrow> 0 | Some h \<Rightarrow> h)"

definition bitmapOf :: "BloomFilterProto \<Rightarrow> string" where
  "bitmapOf un =
     (case bits un of None \<Rightarrow> ''''
      | Some b \<Rightarrow> (case bs_bitmap b of None \<Rightarrow> '''' | Some m \<Rightarrow> m))"

definition createBloomFilterFrom ::
  "(string \<Rightarrow> byte list) \<Rightarrow> ExistenceFilter \<Rightarrow> BloomFilter option result" where
  "createBloomFilterFrom normalizeByteString existenceFilter =
     (case unchangedNames existenceFilter of
        None \<Rightarrow> Return None
      | Some un \<Rightarrow>
          (let padding = paddingOf un;
               hashCount = hashCountOf un
           in if padding < 0 \<or> padding > 7
              then Throw (InvalidBloomFilterError (InvalidPaddingSize padding))
              else if hashCount < 0
              then Throw (InvalidBloomFilterError (InvalidHashCount hashCount))
              else
                (let bitmap = bitmapOf un;
                     bytes = normalizeByteString bitmap
                 in if hashCount = 0 \<and> length bytes > 0
                    then Throw (InvalidBloomFilterError (HashCountBitmapMismatch hashCount))
                    else Return (Some (BloomFilter bytes padding hashCount)))))"

section \<open>Target state machine\<close>

datatype TargetSnapshot = TargetSnapshot (documentPaths: "string set") (resumeToken: token)

record TargetState =
  targetId :: int
  added :: bool
  removed :: bool
  current :: bool
  accumulatedDocumentNames :: "string set"
  addedDeferred :: "unit deferred"
  removedDeferred :: "unit deferred"
  initialSnapshotDeferred :: "TargetSnapshot deferred"
  existenceFilterDeferred :: "BloomFilter option deferred"

text \<open>The constructor: the flags are false, the set holds the initial document paths.\<close>

definition newTargetState :: "int \<Rightarrow> string set option \<Rightarrow> TargetState" where
  "newTargetState tid initialDocumentPaths =
     \<lparr> targetId = tid, added = False, removed = False, current = False,
       accumulatedDocumentNames =
         (case initialDocumentPaths of None \<Rightarrow> {} | Some ps \<Rightarrow> ps),
       addedDeferred = Pending, removedDeferred = Pending,
       initialSnapshotDeferred = Pending, existenceFilterDeferred = Pending \<rparr>"

definition onError :: "Status \<Rightarrow> TargetState \<Rightarrow> unit result \<times> TargetState" where
  "onError err t =
     (Return (),
      t\<lparr> addedDeferred := reject err (addedDeferred t),
         removedDeferred := reject err (removedDeferred t),
         initialSnapshotDeferred := reject err (initialSnapshotDeferred t),
         existenceFilterDeferred := reject err (existenceFilterDeferred t) \<rparr>)"

definition onAdded :: "TargetState \<Rightarrow> unit result \<times> TargetState" where
  "onAdded t =
     (if added t then (Throw (TargetStateError ''onAdded() already invoked.''), t)
      else (Return (), t\<lparr> added := True, addedDeferred := resolve () (addedDeferred t) \<rparr>))"

definition onRemoved :: "TargetState \<Rightarrow> unit result \<times> TargetState" where
  "onRemoved t =
     (if removed t then (Throw (TargetStateError ''onRemoved() already invoked.''), t)
      else if \<not> added t
      then (Throw (TargetStateError ''onRemoved() invoked before onAdded().''), t)
      else (Return (), t\<lparr> removed := True, removedDeferred := resolve () (removedDeferred t) \<rparr>))"

definition onCurrent :: "TargetState \<Rightarrow> unit result \<times> TargetState" where
  "onCurrent t =
     (if \<not> added t then (Throw (TargetStateError ''onCurrent() invoked before onAdded().''), t)
      else if removed t
      then (Throw (TargetStateError ''onCurrent() invoked after onRemoved().''), t)
      else (Return (), t\<lparr> current := True \<rparr>))"

definition onReset :: "TargetState \<Rightarrow> unit result \<times> TargetState" where
  "onReset t =
     (if \<not> added t then (Throw (TargetStateError ''onReset() invoked before onAdded().''), t)
      else if removed t
      then (Throw (TargetStateError ''onReset() invoked after onRemoved().''), t)
      else (Return (), t\<lparr> current := False, accumulatedDocumentNames := {} \<rparr>))"

definition onNoChange :: "token option \<Rightarrow> TargetState \<Rightarrow> unit result \<times> TargetState" where
  "onNoChange token t =
     (if \<not> added t then (Throw (TargetStateError ''onNoChange() invoked before onAdded().''), t)
      else if removed t
      then (Throw (TargetStateError ''onNoChange() invoked after onRemoved().''), t)
      else if current t
      then (case token of
              None \<Rightarrow> (Return (), t)
            | Some tok \<Rightarrow>
                (let paths = accumulatedDocumentNames t
                 in (Return (),
                     t\<lparr> initialSnapshotDeferred :=
                           resolve (TargetSnapshot paths tok) (initialSnapshotDeferred t) \<rparr>)))
      else (Return (), t))"

definition onDocumentChanged :: "string \<Rightarrow> TargetState \<Rightarrow> unit result \<times> TargetState" where
  "onDocumentChanged documentName t =
     (if \<not> added t
      then (Throw (TargetStateError ''onDocumentChanged() invoked when not added.''), t)
      else if removed t
      then (Throw (TargetStateError ''onDocumentChanged() invoked after onRemoved().''), t)
      else (Return (),
            t\<lparr> current := False,
               accumulatedDocumentNames := insert documentName (accumulatedDocumentNames t) \<rparr>))"

definition onDocumentRemoved :: "string \<Rightarrow> TargetState \<Rightarrow> unit result \<times> TargetState" where
  "onDocumentRemoved documentName t =
     (if \<not> added t
      then (Throw (TargetStateError ''onDocumentRemoved() invoked when not added.''), t)
      else if removed t
      then (Throw (TargetStateError ''onDocumentRemoved() invoked after onRemoved().''), t)
      else (Return (),
            t\<lparr> current := False,
               accumulatedDocumentNames := accumulatedDocumentNames t - {documentName} \<rparr>))"

definition onExistenceFilter ::
  "(string \<Rightarrow> byte list) \<Rightarrow> ExistenceFilter \<Rightarrow> TargetState \<Rightarrow> unit result \<times> TargetState" where
  "onExistenceFilter normalizeByteString existenceFilter t =
     (if \<not> added t
      then (Throw (TargetStateError ''onExistenceFilter() invoked when not added.''), t)
      else if removed t
      then (Throw (TargetStateError ''onExistenceFilter() invoked after onRemoved().''), t)
      else (case createBloomFilterFrom normalizeByteString existenceFilter of
              Throw e \<Rightarrow> (Throw e, t)
            | Return bf \<Rightarrow>
                (Return (),
                 t\<lparr> existenceFilterDeferred := resolve bf (existenceFilterDeferred t) \<rparr>)))"

section \<open>Watch stream controller\<close>

text \<open>
  The transport is opaque. Of the stream the model keeps the requests handed to
  \<^verbatim>\<open>send\<close>, whether \<^verbatim>\<open>close\<close> was called on it, and the completion that \<^verbatim>\<open>open()\<close>
  returned and the stream callbacks settle.
\<close>

datatype ListenRequest =
    AddTargetRequest int string string string string "(token \<times> int) option"
      \<comment> \<open>targetId, parent, collectionId, fieldPath, stringValue, resumeToken and expectedCount\<close>
  | RemoveTargetRequest int

record Stream =
  sent :: "(string \<times> ListenRequest) list"
  closeCalled :: bool
  openDeferred :: "unit deferred"

record WatchStreamAddTargetInfo =
  projectId :: string
  collectionId :: string
  keyFilter :: string
  valueFilter :: string
  resume :: "(TargetSnapshot \<times> int) option"

text \<open>A handle is an object with the single field \<^verbatim>\<open>targetId\<close>.\<close>

type_synonym TargetHandle = int

text \<open>
  \<^verbatim>\<open>TargetState\<close> objects are shared and mutated in place: the registry, the arrays built
  by \<^verbatim>\<open>_targetStatesForTargetIds\<close> and the callers that await a completion all hold
  references to them. The objects live in \<open>heap\<close>, addressed by the order of their
  creation; the registry \<open>targets\<close> is the \<^verbatim>\<open>Map\<close> in insertion order, from target id to
  address. The counter \<^verbatim>\<open>_nextTargetId\<close> is an integer: it starts at 1 and grows by one per
  call, and JavaScript numbers are exact on the integers below \<open>2^53\<close>.
\<close>

record WatchStream =
  ws_projectId :: string
  stream :: "Stream option"
  closed :: bool
  closedDeferred :: "unit deferred"
  nextTargetId :: int
  targets :: "(int \<times> nat) list"
  heap :: "nat \<Rightarrow> TargetState"
  allocated :: nat

text \<open>The promise a public operation hands back, named by the completion behind it.\<close>

datatype promise =
    ResolvedPromise                 \<comment> \<open>Promise.resolve()\<close>
  | OpenPromise                     \<comment> \<open>the completion created by open()\<close>
  | ClosedPromise                   \<comment> \<open>_closedDeferred\<close>
  | AddTargetPromise nat int        \<comment> \<open>awaits addedPromise of the object, then yields the handle\<close>
  | RemovedPromise nat
  | InitialSnapshotPromise nat
  | ExistenceFilterPromise nat

definition newWatchStream :: "string \<Rightarrow> WatchStream" where
  "newWatchStream pid =
     \<lparr> ws_projectId = pid, stream = None, closed = False, closedDeferred = Pending,
       nextTargetId = 1, targets = [], heap = (\<lambda>_. undefined), allocated = 0 \<rparr>"

definition open' :: "WatchStream \<Rightarrow> promise result \<times> WatchStream" where
  "open' ws =
     (if stream ws \<noteq> None then (Throw (WatchError OpenOnce), ws)
      else if closed ws then (Throw (WatchError OpenAfterClose), ws)
      else (Return OpenPromise,
            ws\<lparr> stream := Some \<lparr> sent = [], closeCalled = False, openDeferred = Pending \<rparr> \<rparr>))"

text \<open>The callbacks that \<^verbatim>\<open>open()\<close> registers on the stream for its open and close events.\<close>

definition stream_onOpen :: "WatchStream \<Rightarrow> WatchStream" where
  "stream_onOpen ws =
     (case stream ws of
        None \<Rightarrow> ws
      | Some st \<Rightarrow> ws\<lparr> stream := Some (st\<lparr> openDeferred := resolve () (openDeferred st) \<rparr>) \<rparr>)"

definition stream_onClose :: "Status option \<Rightarrow> WatchStream \<Rightarrow> WatchStream" where
  "stream_onClose err ws =
     (case stream ws of
        None \<Rightarrow> ws
      | Some st \<Rightarrow>
          (case err of
             Some e \<Rightarrow>
               ws\<lparr> stream := Some (st\<lparr> openDeferred := reject e (openDeferred st) \<rparr>),
                   closedDeferred := reject e (closedDeferred ws) \<rparr>
           | None \<Rightarrow>
               ws\<lparr> stream := Some (st\<lparr> openDeferred := resolve () (openDeferred st) \<rparr>),
                   closedDeferred := resolve () (closedDeferred ws) \<rparr>))"

definition close :: "WatchStream \<Rightarrow> promise result \<times> WatchStream" where
  "close ws0 =
     (let ws = ws0\<lparr> closed := True \<rparr>
      in case stream ws of
           None \<Rightarrow> (Return ResolvedPromise, ws)
         | Some st \<Rightarrow> (Return ClosedPromise, ws\<lparr> stream := Some (st\<lparr> closeCalled := True \<rparr>) \<rparr>))"

definition sendListenRequest :: "string \<Rightarrow> ListenRequest \<Rightarrow> Stream \<Rightarrow> Stream" where
  "sendListenRequest pid listenRequest st =
     st\<lparr> sent := sent st @ [(''projects/'' @ pid @ ''/databases/(default)'', listenRequest)] \<rparr>"

text \<open>
  \<^verbatim>\<open>addTarget\<close> is an async function: a \<^verbatim>\<open>throw\<close> in its body rejects the promise it
  returns, which is the outcome \<open>Throw\<close> here. The counter is read and incremented by the
  first statement, before the checks. Past the checks the call creates the object,
  registers it, sends the request and awaits the added completion of the object.
\<close>

definition addTarget :: "WatchStreamAddTargetInfo \<Rightarrow> WatchStream \<Rightarrow> promise result \<times> WatchStream" where
  "addTarget targetInfo ws0 =
     (let tid = nextTargetId ws0;
          ws = ws0\<lparr> nextTargetId := nextTargetId ws0 + 1 \<rparr>
      in case stream ws of
           None \<Rightarrow> (Throw (WatchError AddTargetBeforeOpen), ws)
         | Some st \<Rightarrow>
             if closed ws then (Throw (WatchError AddTargetAfterClose), ws)
             else
               (let listenRequest =
                      AddTargetRequest tid
                        (''projects/'' @ projectId targetInfo @ ''/databases/(default)/documents'')
                        (collectionId targetInfo) (keyFilter targetInfo) (valueFilter targetInfo)
                        (case resume targetInfo of
                           None \<Rightarrow> None
                         | Some (from, expectedCount) \<Rightarrow> Some (resumeToken from, expectedCount));
                    targetState =
                      newTargetState tid
                        (case resume targetInfo of
                           None \<Rightarrow> None
                         | Some (from, expectedCount) \<Rightarrow> Some (documentPaths from));
                    r = allocated ws
                in (Return (AddTargetPromise r tid),
                    ws\<lparr> heap := (heap ws)(r := targetState),
                        allocated := r + 1,
                        targets := AList.update tid r (targets ws),
                        stream := Some (sendListenRequest (ws_projectId ws) listenRequest st) \<rparr>)))"

definition removeTarget :: "TargetHandle \<Rightarrow> WatchStream \<Rightarrow> promise result \<times> WatchStream" where
  "removeTarget tid ws =
     (case stream ws of
        None \<Rightarrow> (Throw (WatchError RemoveTargetBeforeOpen), ws)
      | Some st \<Rightarrow>
          if closed ws then (Throw (WatchError RemoveTargetAfterClose), ws)
          else
            (case map_of (targets ws) tid of
               None \<Rightarrow> (Throw (WatchError (NotAddedByAddTarget tid)), ws)
             | Some r \<Rightarrow>
                 (Return (RemovedPromise r),
                  ws\<lparr> stream :=
                        Some (sendListenRequest (ws_projectId ws) (RemoveTargetRequest tid) st) \<rparr>)))"

definition getInitialSnapshot :: "TargetHandle \<Rightarrow> WatchStream \<Rightarrow> promise result" where
  "getInitialSnapshot tid ws =
     (case map_of (targets ws) tid of
        None \<Rightarrow> Throw (WatchError (UnknownTargetId tid))
      | Some r \<Rightarrow> Return (InitialSnapshotPromise r))"

definition getExistenceFilter :: "TargetHandle \<Rightarrow> WatchStream \<Rightarrow> promise result" where
  "getExistenceFilter tid ws =
     (case map_of (targets ws) tid of
        None \<Rightarrow> Throw (WatchError (UnknownTargetId tid))
      | Some r \<Rightarrow> Return (ExistenceFilterPromise r))"

subsection \<open>Inbound dispatch\<close>

text \<open>
  \<^verbatim>\<open>Array.from(targetIds, ...)\<close>: the registry lookup of each id in turn, throwing at the
  first unknown one.
\<close>

fun getAll :: "(int \<times> nat) list \<Rightarrow> int list \<Rightarrow> nat list result" where
  "getAll m [] = Return []"
| "getAll m (i # ids) =
     (case map_of m i of
        None \<Rightarrow> Throw (WatchError (TargetChangeUnknownTargetId i))
      | Some r \<Rightarrow> (case getAll m ids of Throw e \<Rightarrow> Throw e | Return rs \<Rightarrow> Return (r # rs)))"

definition targetStatesForTargetIds :: "int list \<Rightarrow> bool \<Rightarrow> WatchStream \<Rightarrow> nat list result" where
  "targetStatesForTargetIds targetIds allTargetsIfEmpty ws =
     (case getAll (targets ws) targetIds of
        Throw e \<Rightarrow> Throw e
      | Return targetStates \<Rightarrow>
          if length targetStates > 0 \<or> \<not> allTargetsIfEmpty then Return targetStates
          else Return (map snd (targets ws)))"

text \<open>A method call on the object at address \<open>r\<close>: the object is updated in place.\<close>

definition applyAt ::
  "(TargetState \<Rightarrow> unit result \<times> TargetState) \<Rightarrow> nat \<Rightarrow> WatchStream \<Rightarrow> unit result \<times> WatchStream" where
  "applyAt f r ws = (case f (heap ws r) of (res, t) \<Rightarrow> (res, ws\<lparr> heap := (heap ws)(r := t) \<rparr>))"

text \<open>\<^verbatim>\<open>for (const targetState of targetStates)\<close>: the loop ends at the first exception.\<close>

fun forEachTarget ::
  "(nat \<Rightarrow> WatchStream \<Rightarrow> unit result \<times> WatchStream) \<Rightarrow> nat list \<Rightarrow> WatchStream
     \<Rightarrow> unit result \<times> WatchStream" where
  "forEachTarget body [] ws = (Return (), ws)"
| "forEachTarget body (r # rs) ws =
     (case body r ws of
        (Throw e, ws') \<Rightarrow> (Throw e, ws')
      | (Return u, ws') \<Rightarrow> forEachTarget body rs ws')"

definition targetChangeBody :: "TargetChange \<Rightarrow> nat \<Rightarrow> WatchStream \<Rightarrow> unit result \<times> WatchStream" where
  "targetChangeBody tc r ws =
     (case cause tc of
        Some err \<Rightarrow> applyAt (onError err) r ws
      | None \<Rightarrow>
          (let ty = (case targetChangeType tc of None \<Rightarrow> ''NO_CHANGE'' | Some ty \<Rightarrow> ty)
           in if ty = ''ADD'' then applyAt onAdded r ws
              else if ty = ''REMOVE'' then
                (case applyAt onRemoved r ws of
                   (Throw e, ws') \<Rightarrow> (Throw e, ws')
                 | (Return u, ws') \<Rightarrow>
                     (Return (),
                      ws'\<lparr> targets := AList.delete (targetId (heap ws' r)) (targets ws') \<rparr>))
              else if ty = ''CURRENT'' then applyAt onCurrent r ws
              else if ty = ''RESET'' then applyAt onReset r ws
              else if ty = ''NO_CHANGE'' then applyAt (onNoChange (tc_resumeToken tc)) r ws
              else (Throw (WatchError (UnknownTargetChangeType ty)), ws)))"

definition onTargetChange :: "TargetChange \<Rightarrow> WatchStream \<Rightarrow> unit result \<times> WatchStream" where
  "onTargetChange tc ws =
     (case targetStatesForTargetIds (case tc_targetIds tc of None \<Rightarrow> [] | Some ids \<Rightarrow> ids) True ws of
        Throw e \<Rightarrow> (Throw e, ws)
      | Return targetStates \<Rightarrow> forEachTarget (targetChangeBody tc) targetStates ws)"

definition onDocumentChange :: "DocumentChange \<Rightarrow> WatchStream \<Rightarrow> unit result \<times> WatchStream" where
  "onDocumentChange dc ws =
     (case targetStatesForTargetIds
             (case dc_targetIds dc of None \<Rightarrow> [] | Some ids \<Rightarrow> ids) True ws of
        Throw e \<Rightarrow> (Throw e, ws)
      | Return targetStates \<Rightarrow>
          (case forEachTarget (applyAt (onDocumentChanged (dc_document_name dc))) targetStates ws of
             (Throw e, ws') \<Rightarrow> (Throw e, ws')
           | (Return u, ws') \<Rightarrow>
               (case targetStatesForTargetIds
                       (case dc_removedTargetIds dc of None \<Rightarrow> [] | Some ids \<Rightarrow> ids) False ws' of
                  Throw e \<Rightarrow> (Throw e, ws')
                | Return removedStates \<Rightarrow>
                    forEachTarget (applyAt (onDocumentRemoved (dc_document_name dc)))
                      removedStates ws')))"

text \<open>\<^verbatim>\<open>_onDocumentRemove\<close> and \<^verbatim>\<open>_onDocumentDelete\<close> have the same body.\<close>

definition onDocumentRemove :: "DocumentRemove \<Rightarrow> WatchStream \<Rightarrow> unit result \<times> WatchStream" where
  "onDocumentRemove dr ws =
     (case targetStatesForTargetIds
             (case dr_removedTargetIds dr of None \<Rightarrow> [] | Some ids \<Rightarrow> ids) False ws of
        Throw e \<Rightarrow> (Throw e, ws)
      | Return removedStates \<Rightarrow>
          forEachTarget (applyAt (onDocumentRemoved (dr_document dr))) removedStates ws)"

definition onDocumentDelete :: "DocumentRemove \<Rightarrow> WatchStream \<Rightarrow> unit result \<times> WatchStream" where
  "onDocumentDelete dd ws =
     (case targetStatesForTargetIds
             (case dr_removedTargetIds dd of None \<Rightarrow> [] | Some ids \<Rightarrow> ids) False ws of
        Throw e \<Rightarrow> (Throw e, ws)
      | Return removedStates \<Rightarrow>
          forEachTarget (applyAt (onDocumentRemoved (dr_document dd))) removedStates ws)"

definition onExistenceFilterMsg ::
  "(string \<Rightarrow> byte list) \<Rightarrow> ExistenceFilter \<Rightarrow> WatchStream \<Rightarrow> unit result \<times> WatchStream" where
  "onExistenceFilterMsg normalizeByteString existenceFilter ws =
     (case (case ef_targetId existenceFilter of None \<Rightarrow> None | Some tid \<Rightarrow> map_of (targets ws) tid) of
        None \<Rightarrow> (Throw (WatchError (ExistenceFilterUnknownTargetId (ef_targetId existenceFilter))), ws)
      | Some r \<Rightarrow> applyAt (onExistenceFilter normalizeByteString existenceFilter) r ws)"

definition onMessageReceived ::
  "(string \<Rightarrow> byte list) \<Rightarrow> ListenResponse \<Rightarrow> WatchStream \<Rightarrow> unit result \<times> WatchStream" where
  "onMessageReceived normalizeByteString msg ws =
     (case targetChange msg of
        Some tc \<Rightarrow> onTargetChange tc ws
      | None \<Rightarrow>
     (case documentChange msg of
        Some dc \<Rightarrow> onDocumentChange dc ws
      | None \<Rightarrow>
     (case documentRemove msg of
        Some dr \<Rightarrow> onDocumentRemove dr ws
      | None \<Rightarrow>
     (case documentDelete msg of
        Some dd \<Rightarrow> onDocumentDelete dd ws
      | None \<Rightarrow>
     (case filter_msg msg of
        Some ef \<Rightarrow> onExistenceFilterMsg normalizeByteString ef ws
      | None \<Rightarrow> (Return (), ws))))))"

section \<open>Call sequences\<close>

text \<open>
  The calls a controller can make on one \<^verbatim>\<open>TargetState\<close> object, and a sequence of them
  applied in order. A call that throws leaves the object as the exception found it, and
  the next call of the sequence is made on that object.
\<close>

datatype event =
    EvAdded
  | EvRemoved
  | EvCurrent
  | EvReset
  | EvNoChange "token option"
  | EvDocumentChanged string
  | EvDocumentRemoved string
  | EvExistenceFilter ExistenceFilter
  | EvError Status

fun applyEvent :: "(string \<Rightarrow> byte list) \<Rightarrow> event \<Rightarrow> TargetState \<Rightarrow> unit result \<times> TargetState" where
  "applyEvent dec EvAdded t = onAdded t"
| "applyEvent dec EvRemoved t = onRemoved t"
| "applyEvent dec EvCurrent t = onCurrent t"
| "applyEvent dec EvReset t = onReset t"
| "applyEvent dec (EvNoChange tok) t = onNoChange tok t"
| "applyEvent dec (EvDocumentChanged n) t = onDocumentChanged n t"
| "applyEvent dec (EvDocumentRemoved n) t = onDocumentRemoved n t"
| "applyEvent dec (EvExistenceFilter ef) t = onExistenceFilter dec ef t"
| "applyEvent dec (EvError err) t = onError err t"

fun runEvents :: "(string \<Rightarrow> byte list) \<Rightarrow> event list \<Rightarrow> TargetState \<Rightarrow> TargetState" where
  "runEvents dec [] t = t"
| "runEvents dec (e # es) t = runEvents dec es (snd (applyEvent dec e t))"

text \<open>The seven calls that are guarded by both flags.\<close>

fun guarded :: "event \<Rightarrow> bool" where
  "guarded EvAdded = False"
| "guarded (EvError err) = False"
| "guarded e = True"

text \<open>
  What can happen to a controller: the calls of its public interface and the events of
  the transport. The stream callbacks exist once \<^verbatim>\<open>open()\<close> has registered them, so an
  event of the transport before that is no event.
\<close>

datatype command =
    Open
  | Close
  | AddTarget WatchStreamAddTargetInfo
  | RemoveTarget TargetHandle
  | GetInitialSnapshot TargetHandle
  | GetExistenceFilter TargetHandle
  | StreamOpened
  | StreamClosed "Status option"
  | Message ListenResponse

fun exec :: "(string \<Rightarrow> byte list) \<Rightarrow> command \<Rightarrow> WatchStream \<Rightarrow> WatchStream" where
  "exec dec Open ws = snd (open' ws)"
| "exec dec Close ws = snd (close ws)"
| "exec dec (AddTarget info) ws = snd (addTarget info ws)"
| "exec dec (RemoveTarget h) ws = snd (removeTarget h ws)"
| "exec dec (GetInitialSnapshot h) ws = ws"
| "exec dec (GetExistenceFilter h) ws = ws"
| "exec dec StreamOpened ws = stream_onOpen ws"
| "exec dec (StreamClosed err) ws = stream_onClose err ws"
| "exec dec (Message msg) ws =
     (if stream ws = None then ws else snd (onMessageReceived dec msg ws))"

fun run :: "(string \<Rightarrow> byte list) \<Rightarrow> command list \<Rightarrow> WatchStream \<Rightarrow> WatchStream" where
  "run dec [] ws = ws"
| "run dec (c # cs) ws = run dec cs (exec dec c ws)"

text \<open>
  The \<^verbatim>\<open>addTarget\<close> calls of a sequence that passed their checks, in call order: the
  address of the object each one awaits and the target id of the handle it will return.
\<close>

fun addTargetCalls :: "(string \<Rightarrow> byte list) \<Rightarrow> command list \<Rightarrow> WatchStream \<Rightarrow> (nat \<times> int) list" where
  "addTargetCalls dec [] ws = []"
| "addTargetCalls dec (AddTarget info # cs) ws =
     (case fst (addTarget info ws) of
        Return (AddTargetPromise r tid) \<Rightarrow> [(r, tid)]
      | _ \<Rightarrow> [])
     @ addTargetCalls dec cs (exec dec (AddTarget info) ws)"
| "addTargetCalls dec (c # cs) ws = addTargetCalls dec cs (exec dec c ws)"

text \<open>
  The ids of the handles that the \<^verbatim>\<open>addTarget\<close> calls of a sequence have returned by its
  end: a call returns its handle once the added completion of its object is resolved.
\<close>

definition returnedIds :: "(string \<Rightarrow> byte list) \<Rightarrow> command list \<Rightarrow> WatchStream \<Rightarrow> int list" where
  "returnedIds dec cs ws =
     map snd (filter (\<lambda>(r, tid). addedDeferred (heap (run dec cs ws) r) = Resolved ())
                (addTargetCalls dec cs ws))"

text \<open>
  The registry invariant: a \<^verbatim>\<open>Map\<close> has each key once, an object is registered under its
  own \<^verbatim>\<open>targetId\<close>, and every registered id was drawn from the counter.
\<close>

definition registry_ok :: "WatchStream \<Rightarrow> bool" where
  "registry_ok ws \<longleftrightarrow>
     distinct (map fst (targets ws)) \<and>
     (\<forall>(k, r) \<in> set (targets ws).
        targetId (heap ws r) = k \<and> r < allocated ws \<and> k < nextTargetId ws)"

text \<open>
  What the dispatch of an inbound message leaves alone: every field of the controller but
  the registry and the objects, the \<^verbatim>\<open>targetId\<close> of every object, and the entries of the
  registry, which it can only drop.
\<close>

definition dispatch_frame :: "WatchStream \<Rightarrow> WatchStream \<Rightarrow> bool" where
  "dispatch_frame ws ws' \<longleftrightarrow>
     ws_projectId ws' = ws_projectId ws \<and> stream ws' = stream ws \<and> closed ws' = closed ws \<and>
     closedDeferred ws' = closedDeferred ws \<and> nextTargetId ws' = nextTargetId ws \<and>
     allocated ws' = allocated ws \<and>
     set (targets ws') \<subseteq> set (targets ws) \<and>
     (distinct (map fst (targets ws)) \<longrightarrow> distinct (map fst (targets ws'))) \<and>
     (\<forall>r. targetId (heap ws' r) = targetId (heap ws r))"

text \<open>Inputs for the examples: a target to add, and the messages of a server.\<close>

definition exampleInfo :: WatchStreamAddTargetInfo where
  "exampleInfo =
     \<lparr> projectId = ''p'', collectionId = ''c'', keyFilter = ''k'', valueFilter = ''v'',
       resume = None \<rparr>"

definition exampleTargetChange :: "int list \<Rightarrow> string \<Rightarrow> TargetChange" where
  "exampleTargetChange ids ty =
     \<lparr> tc_targetIds = Some ids, cause = None, targetChangeType = Some ty,
       tc_resumeToken = None \<rparr>"

definition targetChangeMsg :: "int list \<Rightarrow> string \<Rightarrow> ListenResponse" where
  "targetChangeMsg ids ty =
     \<lparr> targetChange = Some (exampleTargetChange ids ty),
       documentChange = None, documentRemove = None, documentDelete = None,
       filter_msg = None \<rparr>"

definition exampleDocumentChange :: "int list \<Rightarrow> int list \<Rightarrow> string \<Rightarrow> DocumentChange" where
  "exampleDocumentChange ids removedIds name =
     \<lparr> dc_targetIds = Some ids, dc_removedTargetIds = Some removedIds,
       dc_document_name = name \<rparr>"

definition documentChangeMsg :: "int list \<Rightarrow> int list \<Rightarrow> string \<Rightarrow> ListenResponse" where
  "documentChangeMsg ids removedIds name =
     \<lparr> targetChange = None,
       documentChange = Some (exampleDocumentChange ids removedIds name),
       documentRemove = None, documentDelete = None, filter_msg = None \<rparr>"

text \<open>
  A controller that was opened and holds two targets, of ids 1 and 2, both acknowledged
  by the server.
\<close>

definition twoTargets :: WatchStream where
  "twoTargets =
     run (\<lambda>s. [])
       [Open, AddTarget exampleInfo, AddTarget exampleInfo, Message (targetChangeMsg [] ''ADD'')]
       (newWatchStream ''p'')"

section \<open>The target state machine: order of calls, snapshots, reset\<close>

lemmas ts_defs = onAdded_def onRemoved_def onCurrent_def onReset_def onNoChange_def
  onDocumentChanged_def onDocumentRemoved_def onExistenceFilter_def onError_def

lemma applyEvent_throw_unchanged:
  "fst (applyEvent dec e t) = Throw err \<Longrightarrow> snd (applyEvent dec e t) = t"
  by (cases e) (auto simp: ts_defs Let_def split: if_splits option.splits result.splits)

lemma guarded_throws:
  "guarded e \<Longrightarrow> \<not> added t \<or> removed t \<Longrightarrow> \<exists>m. applyEvent dec e t = (Throw (TargetStateError m), t)"
  by (cases e) (auto simp: ts_defs)

lemma added_applyEvent: "added (snd (applyEvent dec e t)) \<longleftrightarrow> added t \<or> e = EvAdded"
  by (cases e) (auto simp: ts_defs Let_def split: if_splits option.splits result.splits)

lemma removed_applyEvent:
  "removed (snd (applyEvent dec e t)) \<longleftrightarrow> removed t \<or> (e = EvRemoved \<and> added t)"
  by (cases e) (auto simp: ts_defs Let_def split: if_splits option.splits result.splits)

lemma added_runEvents: "added (runEvents dec evs t) \<longleftrightarrow> added t \<or> EvAdded \<in> set evs"
  by (induction evs arbitrary: t) (auto simp: added_applyEvent)

lemma removed_runEvents_mono: "removed t \<Longrightarrow> removed (runEvents dec evs t)"
  by (induction evs arbitrary: t) (auto simp: removed_applyEvent)

lemma runEvents_append: "runEvents dec (xs @ ys) t = runEvents dec ys (runEvents dec xs t)"
  by (induction xs arbitrary: t) auto

lemma onAdded_again: "added t \<Longrightarrow> \<exists>m. onAdded t = (Throw (TargetStateError m), t)"
  by (simp add: onAdded_def)

text \<open>
  Claim C3. On a freshly constructed object, after any sequence of calls: while no
  \<^verbatim>\<open>onAdded\<close> has been made, each of the seven guarded calls (\<^verbatim>\<open>onCurrent\<close>, \<^verbatim>\<open>onReset\<close>,
  \<^verbatim>\<open>onNoChange\<close>, \<^verbatim>\<open>onDocumentChanged\<close>, \<^verbatim>\<open>onDocumentRemoved\<close>, \<^verbatim>\<open>onExistenceFilter\<close>,
  \<^verbatim>\<open>onRemoved\<close>) throws a \<^verbatim>\<open>TargetStateError\<close>; once an \<^verbatim>\<open>onRemoved\<close> has been accepted,
  each of them throws it, \<^verbatim>\<open>onRemoved\<close> itself included; once \<^verbatim>\<open>onAdded\<close> has been called,
  another \<^verbatim>\<open>onAdded\<close> throws it. The same holds of any object by its flags, and a call that
  throws any error returns the object exactly as it was.
\<close>

theorem target_state_guards:
  "(guarded e \<and> EvAdded \<notin> set evs \<longrightarrow>
      (\<exists>m. applyEvent dec e (runEvents dec evs (newTargetState tid init))
             = (Throw (TargetStateError m), runEvents dec evs (newTargetState tid init))))
   \<and> (guarded e \<and> fst (onRemoved (runEvents dec pre (newTargetState tid init))) = Return () \<longrightarrow>
      (\<exists>m. applyEvent dec e (runEvents dec (pre @ EvRemoved # post) (newTargetState tid init))
             = (Throw (TargetStateError m),
                runEvents dec (pre @ EvRemoved # post) (newTargetState tid init))))
   \<and> (EvAdded \<in> set evs \<longrightarrow>
      (\<exists>m. onAdded (runEvents dec evs (newTargetState tid init))
             = (Throw (TargetStateError m), runEvents dec evs (newTargetState tid init))))
   \<and> (guarded e \<and> (\<not> added t \<or> removed t) \<longrightarrow>
      (\<exists>m. applyEvent dec e t = (Throw (TargetStateError m), t)))
   \<and> (added t \<longrightarrow> (\<exists>m. onAdded t = (Throw (TargetStateError m), t)))
   \<and> (removed t \<longrightarrow> (\<exists>m. onRemoved t = (Throw (TargetStateError m), t)))
   \<and> (fst (applyEvent dec e t) = Throw err \<longrightarrow> snd (applyEvent dec e t) = t)"
proof -
  let ?t0 = "newTargetState tid init"
  have a: "guarded e \<and> EvAdded \<notin> set evs \<longrightarrow>
      (\<exists>m. applyEvent dec e (runEvents dec evs ?t0) = (Throw (TargetStateError m), runEvents dec evs ?t0))"
  proof (intro impI, elim conjE)
    assume g: "guarded e" and n: "EvAdded \<notin> set evs"
    have "\<not> added (runEvents dec evs ?t0)"
      using n by (simp add: added_runEvents newTargetState_def)
    then show "\<exists>m. applyEvent dec e (runEvents dec evs ?t0) = (Throw (TargetStateError m), runEvents dec evs ?t0)"
      using g guarded_throws by blast
  qed
  have b: "guarded e \<and> fst (onRemoved (runEvents dec pre ?t0)) = Return () \<longrightarrow>
      (\<exists>m. applyEvent dec e (runEvents dec (pre @ EvRemoved # post) ?t0)
             = (Throw (TargetStateError m), runEvents dec (pre @ EvRemoved # post) ?t0))"
  proof (intro impI, elim conjE)
    assume g: "guarded e" and acc: "fst (onRemoved (runEvents dec pre ?t0)) = Return ()"
    have "removed (snd (onRemoved (runEvents dec pre ?t0)))"
      using acc by (auto simp: onRemoved_def split: if_splits)
    then have "removed (runEvents dec (pre @ EvRemoved # post) ?t0)"
      by (simp add: runEvents_append removed_runEvents_mono)
    then show "\<exists>m. applyEvent dec e (runEvents dec (pre @ EvRemoved # post) ?t0)
             = (Throw (TargetStateError m), runEvents dec (pre @ EvRemoved # post) ?t0)"
      using g guarded_throws by blast
  qed
  have c: "EvAdded \<in> set evs \<longrightarrow>
      (\<exists>m. onAdded (runEvents dec evs ?t0) = (Throw (TargetStateError m), runEvents dec evs ?t0))"
    by (simp add: added_runEvents onAdded_again)
  have d: "guarded e \<and> (\<not> added t \<or> removed t) \<longrightarrow>
      (\<exists>m. applyEvent dec e t = (Throw (TargetStateError m), t))"
    using guarded_throws by blast
  have e: "added t \<longrightarrow> (\<exists>m. onAdded t = (Throw (TargetStateError m), t))"
    by (simp add: onAdded_again)
  have f: "removed t \<longrightarrow> (\<exists>m. onRemoved t = (Throw (TargetStateError m), t))"
    by (simp add: onRemoved_def)
  have g: "fst (applyEvent dec e t) = Throw err \<longrightarrow> snd (applyEvent dec e t) = t"
    using applyEvent_throw_unchanged by blast
  from a b c d e f g show ?thesis by blast
qed

theorem target_state_guards_witness:
  "(\<exists>m. applyEvent (\<lambda>s. []) EvCurrent (runEvents (\<lambda>s. []) [EvReset] (newTargetState 1 None))
          = (Throw (TargetStateError m), runEvents (\<lambda>s. []) [EvReset] (newTargetState 1 None)))
   \<and> (\<exists>m. applyEvent (\<lambda>s. []) EvCurrent
            (runEvents (\<lambda>s. []) ([EvAdded] @ EvRemoved # [EvReset]) (newTargetState 1 None))
          = (Throw (TargetStateError m),
             runEvents (\<lambda>s. []) ([EvAdded] @ EvRemoved # [EvReset]) (newTargetState 1 None)))
   \<and> (\<exists>m. onAdded (runEvents (\<lambda>s. []) [EvAdded, EvCurrent] (newTargetState 1 None))
          = (Throw (TargetStateError m),
             runEvents (\<lambda>s. []) [EvAdded, EvCurrent] (newTargetState 1 None)))"
  using target_state_guards [where e = EvCurrent and evs = "[EvReset]" and dec = "\<lambda>s. []"
      and tid = 1 and init = None and pre = "[EvAdded]" and post = "[EvReset]"]
    target_state_guards [where evs = "[EvAdded, EvCurrent]" and dec = "\<lambda>s. []"
      and tid = 1 and init = None]
  by (simp add: newTargetState_def onAdded_def onRemoved_def)

text \<open>
  Claim C2. The calls \<^verbatim>\<open>onAdded\<close>, \<^verbatim>\<open>onDocumentChanged("A")\<close>, \<^verbatim>\<open>onDocumentChanged("B")\<close>,
  \<^verbatim>\<open>onCurrent\<close>, \<^verbatim>\<open>onNoChange("T1")\<close> on a new object leave the initial-snapshot completion
  resolved with the set of A and B and the token T1. In general \<^verbatim>\<open>onNoChange\<close> settles a
  pending initial-snapshot completion exactly when the object is added, not removed and
  current and the token is not null, and it then resolves it with the accumulated set and
  the token; on an object whose completion is already settled the call changes nothing.
\<close>

theorem onNoChange_initial_snapshot:
  "runEvents dec [EvAdded, EvDocumentChanged ''A'', EvDocumentChanged ''B'', EvCurrent,
                  EvNoChange (Some ''T1'')] (newTargetState tid None)
     = \<lparr> targetId = tid, added = True, removed = False, current = True,
         accumulatedDocumentNames = {''A'', ''B''},
         addedDeferred = Resolved (), removedDeferred = Pending,
         initialSnapshotDeferred = Resolved (TargetSnapshot {''A'', ''B''} ''T1''),
         existenceFilterDeferred = Pending \<rparr>
   \<and> (initialSnapshotDeferred t = Pending \<longrightarrow>
        (initialSnapshotDeferred (snd (onNoChange tok t)) \<noteq> Pending
           \<longleftrightarrow> added t \<and> \<not> removed t \<and> current t \<and> tok \<noteq> None))
   \<and> (initialSnapshotDeferred t = Pending \<and> added t \<and> \<not> removed t \<and> current t \<longrightarrow>
        onNoChange (Some tk) t
          = (Return (),
             t\<lparr> initialSnapshotDeferred :=
                  Resolved (TargetSnapshot (accumulatedDocumentNames t) tk) \<rparr>))
   \<and> (initialSnapshotDeferred t \<noteq> Pending \<longrightarrow> snd (onNoChange tok t) = t)"
proof -
  have a: "runEvents dec [EvAdded, EvDocumentChanged ''A'', EvDocumentChanged ''B'', EvCurrent,
                  EvNoChange (Some ''T1'')] (newTargetState tid None)
     = \<lparr> targetId = tid, added = True, removed = False, current = True,
         accumulatedDocumentNames = {''A'', ''B''},
         addedDeferred = Resolved (), removedDeferred = Pending,
         initialSnapshotDeferred = Resolved (TargetSnapshot {''A'', ''B''} ''T1''),
         existenceFilterDeferred = Pending \<rparr>"
    by (simp add: ts_defs newTargetState_def insert_commute)
  have b: "initialSnapshotDeferred t = Pending \<longrightarrow>
        (initialSnapshotDeferred (snd (onNoChange tok t)) \<noteq> Pending
           \<longleftrightarrow> added t \<and> \<not> removed t \<and> current t \<and> tok \<noteq> None)"
    by (auto simp: onNoChange_def Let_def split: option.splits)
  have c: "initialSnapshotDeferred t = Pending \<and> added t \<and> \<not> removed t \<and> current t \<longrightarrow>
        onNoChange (Some tk) t
          = (Return (),
             t\<lparr> initialSnapshotDeferred :=
                  Resolved (TargetSnapshot (accumulatedDocumentNames t) tk) \<rparr>)"
    by (simp add: onNoChange_def Let_def)
  have d: "initialSnapshotDeferred t \<noteq> Pending \<longrightarrow> snd (onNoChange tok t) = t"
    by (cases "initialSnapshotDeferred t") (auto simp: onNoChange_def Let_def split: option.splits)
  from a b c d show ?thesis by blast
qed

theorem onNoChange_initial_snapshot_witness:
  "onNoChange (Some ''T2'') (runEvents (\<lambda>s. []) [EvAdded, EvCurrent] (newTargetState 1 None))
     = (Return (),
        (runEvents (\<lambda>s. []) [EvAdded, EvCurrent] (newTargetState 1 None))
          \<lparr> initialSnapshotDeferred := Resolved (TargetSnapshot {} ''T2'') \<rparr>)
   \<and> snd (onNoChange (Some ''T3'')
            (runEvents (\<lambda>s. []) [EvAdded, EvCurrent, EvNoChange (Some ''T2'')]
               (newTargetState 1 None)))
       = runEvents (\<lambda>s. []) [EvAdded, EvCurrent, EvNoChange (Some ''T2'')] (newTargetState 1 None)"
  using onNoChange_initial_snapshot [where dec = "\<lambda>s. []" and tid = 1 and tk = "''T2''"
      and t = "runEvents (\<lambda>s. []) [EvAdded, EvCurrent] (newTargetState 1 None)"]
    onNoChange_initial_snapshot [where dec = "\<lambda>s. []" and tid = 1 and tok = "Some ''T3''"
      and t = "runEvents (\<lambda>s. []) [EvAdded, EvCurrent, EvNoChange (Some ''T2'')]
                 (newTargetState 1 None)"]
  by (simp add: newTargetState_def onAdded_def onCurrent_def onNoChange_def)

text \<open>
  Claim C6. On an object that is added and not removed, \<^verbatim>\<open>onReset\<close> returns with
  \<^verbatim>\<open>current\<close> false and the accumulated set empty, whatever the set held; \<^verbatim>\<open>onCurrent\<close> and
  then \<^verbatim>\<open>onNoChange\<close> with a token hand the snapshot of the empty set and that token to the
  initial-snapshot completion, which is resolved with it when it was still pending.
\<close>

theorem onReset_clears:
  "added t \<and> \<not> removed t \<longrightarrow>
     onReset t = (Return (), t\<lparr> current := False, accumulatedDocumentNames := {} \<rparr>)
     \<and> fst (onCurrent (snd (onReset t))) = Return ()
     \<and> onNoChange (Some tk) (snd (onCurrent (snd (onReset t))))
         = (Return (),
            t\<lparr> current := True, accumulatedDocumentNames := {},
               initialSnapshotDeferred :=
                 resolve (TargetSnapshot {} tk) (initialSnapshotDeferred t) \<rparr>)
     \<and> (initialSnapshotDeferred t = Pending \<longrightarrow>
          initialSnapshotDeferred (snd (onNoChange (Some tk) (snd (onCurrent (snd (onReset t))))))
            = Resolved (TargetSnapshot {} tk))"
  by (simp add: onReset_def onCurrent_def onNoChange_def Let_def)

theorem onReset_clears_witness:
  "onReset (runEvents (\<lambda>s. []) [EvAdded, EvDocumentChanged ''A'', EvDocumentChanged ''B'']
              (newTargetState 1 None))
     = (Return (),
        \<lparr> targetId = 1, added = True, removed = False, current = False,
          accumulatedDocumentNames = {},
          addedDeferred = Resolved (), removedDeferred = Pending,
          initialSnapshotDeferred = Pending, existenceFilterDeferred = Pending \<rparr>)
   \<and> initialSnapshotDeferred
        (runEvents (\<lambda>s. [])
           [EvAdded, EvDocumentChanged ''A'', EvDocumentChanged ''B'', EvReset, EvCurrent,
            EvNoChange (Some ''T1'')] (newTargetState 1 None))
       = Resolved (TargetSnapshot {} ''T1'')"
  using onReset_clears [where tk = "''T1''"
      and t = "runEvents (\<lambda>s. []) [EvAdded, EvDocumentChanged ''A'', EvDocumentChanged ''B'']
                 (newTargetState 1 None)"]
  by (simp add: newTargetState_def onAdded_def onDocumentChanged_def onReset_def onCurrent_def
      onNoChange_def)

text \<open>
  Claim C5. Without an \<^verbatim>\<open>unchangedNames\<close> payload the result is \<^verbatim>\<open>null\<close>. With one, a padding
  below 0 or above 7, a negative hash count, or a hash count of 0 with a non-empty decoded
  bitmap each throw an \<^verbatim>\<open>InvalidBloomFilterError\<close>; every other payload yields the filter
  built from the decoded bytes, the padding and the hash count.
\<close>

theorem createBloomFilterFrom_validation:
  "(unchangedNames ef = None \<longrightarrow> createBloomFilterFrom dec ef = Return None)
   \<and> (unchangedNames ef = Some un \<and> (paddingOf un < 0 \<or> 7 < paddingOf un) \<longrightarrow>
        (\<exists>m. createBloomFilterFrom dec ef = Throw (InvalidBloomFilterError m)))
   \<and> (unchangedNames ef = Some un \<and> hashCountOf un < 0 \<longrightarrow>
        (\<exists>m. createBloomFilterFrom dec ef = Throw (InvalidBloomFilterError m)))
   \<and> (unchangedNames ef = Some un \<and> hashCountOf un = 0 \<and> dec (bitmapOf un) \<noteq> [] \<longrightarrow>
        (\<exists>m. createBloomFilterFrom dec ef = Throw (InvalidBloomFilterError m)))
   \<and> (unchangedNames ef = Some un \<and> 0 \<le> paddingOf un \<and> paddingOf un \<le> 7
        \<and> 0 \<le> hashCountOf un \<and> \<not> (hashCountOf un = 0 \<and> dec (bitmapOf un) \<noteq> []) \<longrightarrow>
        createBloomFilterFrom dec ef
          = Return (Some (BloomFilter (dec (bitmapOf un)) (paddingOf un) (hashCountOf un))))"
  by (auto simp: createBloomFilterFrom_def Let_def)

theorem createBloomFilterFrom_validation_witness:
  "createBloomFilterFrom (map (\<lambda>c. of_nat (of_char c)))
       \<lparr> ef_targetId = Some 1,
         unchangedNames = Some \<lparr> bits = Some \<lparr> bs_bitmap = None, bs_padding = Some 8 \<rparr>,
                                 bf_hashCount = Some 0 \<rparr> \<rparr>
     = Throw (InvalidBloomFilterError (InvalidPaddingSize 8))
   \<and> createBloomFilterFrom (map (\<lambda>c. of_nat (of_char c)))
       \<lparr> ef_targetId = Some 1,
         unchangedNames = Some \<lparr> bits = None, bf_hashCount = Some (- 1) \<rparr> \<rparr>
     = Throw (InvalidBloomFilterError (InvalidHashCount (- 1)))
   \<and> createBloomFilterFrom (map (\<lambda>c. of_nat (of_char c)))
       \<lparr> ef_targetId = Some 1,
         unchangedNames = Some \<lparr> bits = Some \<lparr> bs_bitmap = Some ''AQ'', bs_padding = None \<rparr>,
                                 bf_hashCount = Some 0 \<rparr> \<rparr>
     = Throw (InvalidBloomFilterError (HashCountBitmapMismatch 0))
   \<and> createBloomFilterFrom (map (\<lambda>c. of_nat (of_char c)))
       \<lparr> ef_targetId = Some 1, unchangedNames = None \<rparr>
     = Return None
   \<and> createBloomFilterFrom (map (\<lambda>c. of_nat (of_char c)))
       \<lparr> ef_targetId = Some 1,
         unchangedNames = Some \<lparr> bits = Some \<lparr> bs_bitmap = Some ''A'', bs_padding = Some 7 \<rparr>,
                                 bf_hashCount = Some 3 \<rparr> \<rparr>
     = Return (Some (BloomFilter [65] 7 3))"
  using createBloomFilterFrom_validation [where dec = "map (\<lambda>c. of_nat (of_char c))"
      and ef = "\<lparr> ef_targetId = Some 1,
         unchangedNames = Some \<lparr> bits = Some \<lparr> bs_bitmap = None, bs_padding = Some 8 \<rparr>,
                                 bf_hashCount = Some 0 \<rparr> \<rparr>"
      and un = "\<lparr> bits = Some \<lparr> bs_bitmap = None, bs_padding = Some 8 \<rparr>,
                                 bf_hashCount = Some 0 \<rparr>"]
  by (simp add: createBloomFilterFrom_def paddingOf_def hashCountOf_def bitmapOf_def)

section \<open>Inbound dispatch: what it leaves alone\<close>

lemma getAll_Return:
  "getAll m ids = Return rs \<Longrightarrow>
     rs = map (\<lambda>i. the (map_of m i)) ids \<and> (\<forall>i \<in> set ids. map_of m i \<noteq> None)"
  by (induction ids arbitrary: rs) (auto split: option.splits result.splits)



lemma applyAt_eq:
  "applyAt f r ws = (fst (f (heap ws r)), ws\<lparr> heap := (heap ws)(r := snd (f (heap ws r))) \<rparr>)"
  by (simp add: applyAt_def split: prod.splits)

lemma forEachTarget_rel:
  assumes step: "\<And>r a res b. body r a = (res, b) \<Longrightarrow> R a b"
      and refl: "\<And>a. R a a"
      and trans: "\<And>a b c. R a b \<Longrightarrow> R b c \<Longrightarrow> R a c"
  shows "forEachTarget body rs ws = (res, ws') \<Longrightarrow> R ws ws'"
proof (induction rs arbitrary: ws)
  case Nil
  then show ?case by (simp add: refl)
next
  case (Cons r rs)
  obtain res1 ws1 where b: "body r ws = (res1, ws1)" by (cases "body r ws")
  show ?case
  proof (cases res1)
    case (Throw e)
    with Cons.prems b have "ws' = ws1" by simp
    with b step show ?thesis by blast
  next
    case (Return u)
    with Cons.prems b have "forEachTarget body rs ws1 = (res, ws')" by simp
    then have "R ws1 ws'" by (rule Cons.IH)
    with b step trans show ?thesis by blast
  qed
qed

lemma dispatch_frame_refl: "dispatch_frame ws ws"
  by (simp add: dispatch_frame_def)

lemma dispatch_frame_trans:
  "dispatch_frame a b \<Longrightarrow> dispatch_frame b c \<Longrightarrow> dispatch_frame a c"
  unfolding dispatch_frame_def by (intro conjI) (simp_all, blast)

lemma targetId_applyEvent: "targetId (snd (applyEvent dec e t)) = targetId t"
  by (cases e) (auto simp: ts_defs Let_def split: if_splits option.splits result.splits)

lemma applyAt_frame:
  "(\<And>t. targetId (snd (f t)) = targetId t) \<Longrightarrow> applyAt f r ws = (res, ws') \<Longrightarrow> dispatch_frame ws ws'"
  by (auto simp: applyAt_eq dispatch_frame_def)

lemma targetId_on [simp]:
  "targetId (snd (onAdded t)) = targetId t"
  "targetId (snd (onRemoved t)) = targetId t"
  "targetId (snd (onCurrent t)) = targetId t"
  "targetId (snd (onReset t)) = targetId t"
  "targetId (snd (onNoChange tok t)) = targetId t"
  "targetId (snd (onDocumentChanged n t)) = targetId t"
  "targetId (snd (onDocumentRemoved n t)) = targetId t"
  "targetId (snd (onExistenceFilter dec ef t)) = targetId t"
  "targetId (snd (onError err t)) = targetId t"
  using targetId_applyEvent [of dec EvAdded t] targetId_applyEvent [of dec EvRemoved t]
    targetId_applyEvent [of dec EvCurrent t] targetId_applyEvent [of dec EvReset t]
    targetId_applyEvent [of dec "EvNoChange tok" t]
    targetId_applyEvent [of dec "EvDocumentChanged n" t]
    targetId_applyEvent [of dec "EvDocumentRemoved n" t]
    targetId_applyEvent [of dec "EvExistenceFilter ef" t]
    targetId_applyEvent [of dec "EvError err" t]
  by simp_all

lemma set_delete_subset: "set (AList.delete k xs) \<subseteq> set xs"
  by (auto simp: AList.delete_eq)

lemma delete_frame:
  "dispatch_frame ws (ws\<lparr> targets := AList.delete k (targets ws) \<rparr>)"
  using set_delete_subset [of k "targets ws"] by (simp add: dispatch_frame_def distinct_delete)

lemma targetChangeBody_frame:
  "targetChangeBody tc r ws = (res, ws') \<Longrightarrow> dispatch_frame ws ws'"
proof -
  assume a: "targetChangeBody tc r ws = (res, ws')"
  have ap: "\<And>f res ws'. (\<And>t. targetId (snd (f t)) = targetId t) \<Longrightarrow>
     applyAt f r ws = (res, ws') \<Longrightarrow> dispatch_frame ws ws'"
    by (rule applyAt_frame)
  show ?thesis
  proof (cases "cause tc")
    case (Some err)
    with a show ?thesis by (auto simp: targetChangeBody_def intro: ap [of "onError err"])
  next
    case None
    define ty where "ty = (case targetChangeType tc of None \<Rightarrow> ''NO_CHANGE'' | Some ty \<Rightarrow> ty)"
    consider "ty = ''ADD''" | "ty = ''REMOVE''" | "ty = ''CURRENT''" | "ty = ''RESET''"
      | "ty = ''NO_CHANGE''"
      | "ty \<noteq> ''ADD''" "ty \<noteq> ''REMOVE''" "ty \<noteq> ''CURRENT''" "ty \<noteq> ''RESET''" "ty \<noteq> ''NO_CHANGE''"
      by blast
    then show ?thesis
    proof cases
      case 1
      with a None show ?thesis
        by (auto simp: targetChangeBody_def ty_def [symmetric] intro: ap [of onAdded])
    next
      case 2
      obtain res1 ws1 where b: "applyAt onRemoved r ws = (res1, ws1)"
        by (cases "applyAt onRemoved r ws")
      then have f1: "dispatch_frame ws ws1" by (auto intro: ap [of onRemoved])
      show ?thesis
      proof (cases res1)
        case (Throw e)
        with a None 2 b f1 show ?thesis
          by (simp add: targetChangeBody_def ty_def [symmetric])
      next
        case (Return u)
        with a None 2 b have "ws' = ws1\<lparr> targets := AList.delete (targetId (heap ws1 r)) (targets ws1) \<rparr>"
          by (simp add: targetChangeBody_def ty_def [symmetric])
        with f1 show ?thesis
          using delete_frame dispatch_frame_trans by blast
      qed
    next
      case 3
      with a None show ?thesis
        by (auto simp: targetChangeBody_def ty_def [symmetric] intro: ap [of onCurrent])
    next
      case 4
      with a None show ?thesis
        by (auto simp: targetChangeBody_def ty_def [symmetric] intro: ap [of onReset])
    next
      case 5
      with a None show ?thesis
        by (auto simp: targetChangeBody_def ty_def [symmetric]
            intro: ap [of "onNoChange (tc_resumeToken tc)"])
    next
      case 6
      with a None show ?thesis
        by (simp add: targetChangeBody_def ty_def [symmetric] dispatch_frame_refl)
    qed
  qed
qed

lemma forEach_targetChange_frame:
  "forEachTarget (targetChangeBody tc) rs ws = (res, ws') \<Longrightarrow> dispatch_frame ws ws'"
  by (rule forEachTarget_rel [where body = "targetChangeBody tc" and R = dispatch_frame])
     (auto intro: targetChangeBody_frame dispatch_frame_refl dispatch_frame_trans)

lemma forEach_applyAt_frame:
  "(\<And>t. targetId (snd (f t)) = targetId t) \<Longrightarrow>
   forEachTarget (applyAt f) rs ws = (res, ws') \<Longrightarrow> dispatch_frame ws ws'"
  by (rule forEachTarget_rel [where body = "applyAt f" and R = dispatch_frame])
     (auto intro: applyAt_frame dispatch_frame_refl dispatch_frame_trans)

lemma onTargetChange_frame:
  "onTargetChange tc ws = (res, ws') \<Longrightarrow> dispatch_frame ws ws'"
  by (auto simp: onTargetChange_def dispatch_frame_refl split: result.splits
      intro: forEach_targetChange_frame)

lemma onDocumentRemove_frame:
  "onDocumentRemove dr ws = (res, ws') \<Longrightarrow> dispatch_frame ws ws'"
  by (auto simp: onDocumentRemove_def dispatch_frame_refl split: result.splits
      intro: forEach_applyAt_frame [of "onDocumentRemoved (dr_document dr)"])

lemma onDocumentDelete_frame:
  "onDocumentDelete dr ws = (res, ws') \<Longrightarrow> dispatch_frame ws ws'"
  by (auto simp: onDocumentDelete_def dispatch_frame_refl split: result.splits
      intro: forEach_applyAt_frame [of "onDocumentRemoved (dr_document dr)"])

lemma onDocumentChange_frame:
  assumes "onDocumentChange dc ws = (res, ws')"
  shows "dispatch_frame ws ws'"
proof (cases "targetStatesForTargetIds (case dc_targetIds dc of None \<Rightarrow> [] | Some ids \<Rightarrow> ids) True ws")
  case (Throw e)
  with assms show ?thesis by (simp add: onDocumentChange_def dispatch_frame_refl)
next
  case (Return rs)
  obtain res1 ws1 where l1:
    "forEachTarget (applyAt (onDocumentChanged (dc_document_name dc))) rs ws = (res1, ws1)"
    by (cases "forEachTarget (applyAt (onDocumentChanged (dc_document_name dc))) rs ws")
  then have f1: "dispatch_frame ws ws1"
    by (auto intro: forEach_applyAt_frame [of "onDocumentChanged (dc_document_name dc)"])
  show ?thesis
  proof (cases res1)
    case (Throw e)
    with assms Return l1 f1 show ?thesis by (simp add: onDocumentChange_def)
  next
    case r1: (Return u)
    show ?thesis
    proof (cases "targetStatesForTargetIds
                    (case dc_removedTargetIds dc of None \<Rightarrow> [] | Some ids \<Rightarrow> ids) False ws1")
      case (Throw e)
      with assms Return l1 r1 f1 show ?thesis by (simp add: onDocumentChange_def)
    next
      case r2: (Return rs2)
      with assms Return l1 r1 have
        "forEachTarget (applyAt (onDocumentRemoved (dc_document_name dc))) rs2 ws1 = (res, ws')"
        by (simp add: onDocumentChange_def)
      then have "dispatch_frame ws1 ws'"
        by (auto intro: forEach_applyAt_frame [of "onDocumentRemoved (dc_document_name dc)"])
      with f1 show ?thesis by (rule dispatch_frame_trans)
    qed
  qed
qed

lemma onExistenceFilterMsg_frame:
  "onExistenceFilterMsg dec ef ws = (res, ws') \<Longrightarrow> dispatch_frame ws ws'"
  by (auto simp: onExistenceFilterMsg_def dispatch_frame_refl split: option.splits
      intro: applyAt_frame [of "onExistenceFilter dec ef"])

lemma onMessageReceived_frame:
  "onMessageReceived dec msg ws = (res, ws') \<Longrightarrow> dispatch_frame ws ws'"
  by (auto simp: onMessageReceived_def dispatch_frame_refl split: option.splits
      intro: onTargetChange_frame onDocumentChange_frame onDocumentRemove_frame
        onDocumentDelete_frame onExistenceFilterMsg_frame)

section \<open>The life cycle of the stream\<close>

lemma stream_exec: "stream ws \<noteq> None \<Longrightarrow> stream (exec dec c ws) \<noteq> None"
proof (cases c)
  case (Message msg)
  obtain res ws' where m: "onMessageReceived dec msg ws = (res, ws')"
    by (cases "onMessageReceived dec msg ws")
  assume "stream ws \<noteq> None"
  with Message m onMessageReceived_frame [OF m] show ?thesis
    by (simp add: dispatch_frame_def)
qed (auto simp: open'_def close_def addTarget_def removeTarget_def stream_onOpen_def
      stream_onClose_def Let_def split: option.splits)

lemma closed_exec: "closed ws \<Longrightarrow> closed (exec dec c ws)"
proof (cases c)
  case (Message msg)
  obtain res ws' where m: "onMessageReceived dec msg ws = (res, ws')"
    by (cases "onMessageReceived dec msg ws")
  assume "closed ws"
  with Message m onMessageReceived_frame [OF m] show ?thesis
    by (simp add: dispatch_frame_def)
qed (auto simp: open'_def close_def addTarget_def removeTarget_def stream_onOpen_def
      stream_onClose_def Let_def split: option.splits)

lemma stream_None_exec: "c \<noteq> Open \<Longrightarrow> stream ws = None \<Longrightarrow> stream (exec dec c ws) = None"
  by (cases c) (auto simp: close_def addTarget_def removeTarget_def stream_onOpen_def
      stream_onClose_def Let_def split: option.splits)

lemma after_Open: "stream (exec dec Open ws) \<noteq> None \<or> closed (exec dec Open ws)"
  by (simp add: open'_def)

lemma after_Close: "closed (exec dec Close ws)"
  by (simp add: close_def Let_def split: option.splits)

lemma stream_run: "stream ws \<noteq> None \<Longrightarrow> stream (run dec cs ws) \<noteq> None"
  by (induction cs arbitrary: ws) (simp_all add: stream_exec del: not_None_eq)

lemma closed_run: "closed ws \<Longrightarrow> closed (run dec cs ws)"
  by (induction cs arbitrary: ws) (auto simp: closed_exec)

lemma run_append: "run dec (xs @ ys) ws = run dec ys (run dec xs ws)"
  by (induction xs arbitrary: ws) auto

lemma Open_run: "Open \<in> set cs \<Longrightarrow> stream (run dec cs ws) \<noteq> None \<or> closed (run dec cs ws)"
proof (induction cs arbitrary: ws)
  case Nil
  then show ?case by simp
next
  case (Cons c cs)
  show ?case
  proof (cases "c = Open")
    case True
    with after_Open [of dec ws] show ?thesis
      using stream_run closed_run by auto
  next
    case False
    with Cons show ?thesis by auto
  qed
qed

lemma Close_run: "Close \<in> set cs \<Longrightarrow> closed (run dec cs ws)"
proof (induction cs arbitrary: ws)
  case Nil
  then show ?case by simp
next
  case (Cons c cs)
  show ?case
  proof (cases "c = Close")
    case True
    with after_Close [of dec ws] show ?thesis
      using closed_run by auto
  next
    case False
    with Cons show ?thesis by auto
  qed
qed

lemma no_Open_run: "Open \<notin> set cs \<Longrightarrow> stream ws = None \<Longrightarrow> stream (run dec cs ws) = None"
  by (induction cs arbitrary: ws) (auto simp: stream_None_exec)

lemma open_throws:
  "stream ws \<noteq> None \<or> closed ws \<Longrightarrow> \<exists>m. open' ws = (Throw (WatchError m), ws)"
  by (auto simp: open'_def)

lemma addTarget_throws:
  "stream ws = None \<or> closed ws \<Longrightarrow>
     \<exists>m. addTarget info ws = (Throw (WatchError m), ws\<lparr> nextTargetId := nextTargetId ws + 1 \<rparr>)"
  by (auto simp: addTarget_def Let_def split: option.splits)

lemma removeTarget_throws:
  "stream ws = None \<or> closed ws \<Longrightarrow> \<exists>m. removeTarget h ws = (Throw (WatchError m), ws)"
  by (auto simp: removeTarget_def split: option.splits)

text \<open>
  Claim C9. On a controller that has gone through any sequence of calls and transport
  events since its construction: if \<^verbatim>\<open>open()\<close> was called before, or \<^verbatim>\<open>close()\<close> was, then
  \<^verbatim>\<open>open()\<close> throws a \<^verbatim>\<open>WatchError\<close>; if \<^verbatim>\<open>open()\<close> was never called, or \<^verbatim>\<open>close()\<close> was called,
  then \<^verbatim>\<open>addTarget\<close> rejects with a \<^verbatim>\<open>WatchError\<close> and \<^verbatim>\<open>removeTarget\<close> throws one. The same is
  stated of any controller by its fields.
\<close>

theorem lifecycle_preconditions:
  "(Open \<in> set cs \<or> Close \<in> set cs \<longrightarrow>
      (\<exists>m. open' (run dec cs (newWatchStream pid))
             = (Throw (WatchError m), run dec cs (newWatchStream pid))))
   \<and> (Open \<notin> set cs \<or> Close \<in> set cs \<longrightarrow>
      (\<exists>m. addTarget info (run dec cs (newWatchStream pid))
             = (Throw (WatchError m),
                (run dec cs (newWatchStream pid))
                  \<lparr> nextTargetId := nextTargetId (run dec cs (newWatchStream pid)) + 1 \<rparr>))
      \<and> (\<exists>m. removeTarget h (run dec cs (newWatchStream pid))
             = (Throw (WatchError m), run dec cs (newWatchStream pid))))
   \<and> (stream ws \<noteq> None \<or> closed ws \<longrightarrow> (\<exists>m. open' ws = (Throw (WatchError m), ws)))
   \<and> (stream ws = None \<or> closed ws \<longrightarrow>
        (\<exists>m. fst (addTarget info ws) = Throw (WatchError m))
        \<and> (\<exists>m. removeTarget h ws = (Throw (WatchError m), ws)))"
proof -
  let ?s = "run dec cs (newWatchStream pid)"
  have a: "Open \<in> set cs \<or> Close \<in> set cs \<longrightarrow> (\<exists>m. open' ?s = (Throw (WatchError m), ?s))"
    using Open_run [of cs dec "newWatchStream pid"] Close_run [of cs dec "newWatchStream pid"]
      open_throws [of ?s] by blast
  have n: "Open \<notin> set cs \<or> Close \<in> set cs \<longrightarrow> stream ?s = None \<or> closed ?s"
    using no_Open_run [of cs "newWatchStream pid" dec] Close_run [of cs dec "newWatchStream pid"]
    by (auto simp: newWatchStream_def)
  have b: "Open \<notin> set cs \<or> Close \<in> set cs \<longrightarrow>
      (\<exists>m. addTarget info ?s = (Throw (WatchError m), ?s\<lparr> nextTargetId := nextTargetId ?s + 1 \<rparr>))
      \<and> (\<exists>m. removeTarget h ?s = (Throw (WatchError m), ?s))"
    using n addTarget_throws [of ?s info] removeTarget_throws [of ?s h] by blast
  have c: "stream ws \<noteq> None \<or> closed ws \<longrightarrow> (\<exists>m. open' ws = (Throw (WatchError m), ws))"
    using open_throws by blast
  have d: "stream ws = None \<or> closed ws \<longrightarrow>
        (\<exists>m. fst (addTarget info ws) = Throw (WatchError m))
        \<and> (\<exists>m. removeTarget h ws = (Throw (WatchError m), ws))"
    using addTarget_throws [of ws info] removeTarget_throws [of ws h] by (metis fst_conv)
  from a b c d show ?thesis by blast
qed

theorem lifecycle_preconditions_witness:
  "(\<exists>m. open' (run (\<lambda>s. []) [Open] (newWatchStream ''p''))
          = (Throw (WatchError m), run (\<lambda>s. []) [Open] (newWatchStream ''p'')))
   \<and> (\<exists>m. open' (run (\<lambda>s. []) [Close] (newWatchStream ''p''))
          = (Throw (WatchError m), run (\<lambda>s. []) [Close] (newWatchStream ''p'')))
   \<and> (\<exists>m. removeTarget 1 (run (\<lambda>s. []) [Open, Close] (newWatchStream ''p''))
          = (Throw (WatchError m), run (\<lambda>s. []) [Open, Close] (newWatchStream ''p'')))
   \<and> (\<exists>m. removeTarget 1 (run (\<lambda>s. []) [] (newWatchStream ''p''))
          = (Throw (WatchError m), run (\<lambda>s. []) [] (newWatchStream ''p'')))
   \<and> (\<exists>m. fst (addTarget \<lparr> projectId = ''p'', collectionId = ''c'', keyFilter = ''k'',
                            valueFilter = ''v'', resume = None \<rparr>
                 (newWatchStream ''p'')) = Throw (WatchError m))"
  using lifecycle_preconditions [where cs = "[Open]" and dec = "\<lambda>s. []" and pid = "''p''"]
    lifecycle_preconditions [where cs = "[Close]" and dec = "\<lambda>s. []" and pid = "''p''"]
    lifecycle_preconditions [where cs = "[Open, Close]" and dec = "\<lambda>s. []" and pid = "''p''"
      and h = 1]
    lifecycle_preconditions [where cs = "[]" and dec = "\<lambda>s. []" and pid = "''p''" and h = 1
      and ws = "newWatchStream ''p''"
      and info = "\<lparr> projectId = ''p'', collectionId = ''c'', keyFilter = ''k'',
                            valueFilter = ''v'', resume = None \<rparr>"]
  by (simp add: newWatchStream_def)

section \<open>The registry invariant\<close>

lemma update_fresh: "k \<notin> fst ` set xs \<Longrightarrow> AList.update k v xs = xs @ [(k, v)]"
  by (induction xs) auto

lemma registry_ok_new: "registry_ok (newWatchStream pid)"
  by (simp add: registry_ok_def newWatchStream_def)

lemma registry_ok_frame: "dispatch_frame ws ws' \<Longrightarrow> registry_ok ws \<Longrightarrow> registry_ok ws'"
  unfolding dispatch_frame_def registry_ok_def by (auto split: prod.splits)

lemma registry_ok_addTarget: "registry_ok ws \<Longrightarrow> registry_ok (snd (addTarget info ws))"
proof -
  assume ok: "registry_ok ws"
  show ?thesis
  proof (cases "stream ws = None \<or> closed ws")
    case True
    with ok show ?thesis
      by (fastforce simp: addTarget_def Let_def registry_ok_def split: option.splits)
  next
    case False
    then obtain st where st: "stream ws = Some st" and nc: "\<not> closed ws" by auto
    have fresh: "nextTargetId ws \<notin> fst ` set (targets ws)"
      using ok by (fastforce simp: registry_ok_def)
    then have upd: "AList.update (nextTargetId ws) (allocated ws) (targets ws)
        = targets ws @ [(nextTargetId ws, allocated ws)]"
      by (rule update_fresh)
    show ?thesis
      using ok fresh st nc
      by (fastforce simp: addTarget_def Let_def registry_ok_def upd newTargetState_def)
  qed
qed

lemma registry_ok_exec: "registry_ok ws \<Longrightarrow> registry_ok (exec dec c ws)"
proof (cases c)
  case (Message msg)
  obtain res ws' where m: "onMessageReceived dec msg ws = (res, ws')"
    by (cases "onMessageReceived dec msg ws")
  assume "registry_ok ws"
  with Message m registry_ok_frame [OF onMessageReceived_frame [OF m]] show ?thesis
    by simp
next
  case (AddTarget info)
  assume "registry_ok ws"
  with AddTarget show ?thesis by (simp add: registry_ok_addTarget)
qed (auto simp: registry_ok_def open'_def close_def removeTarget_def stream_onOpen_def
      stream_onClose_def Let_def split: option.splits)

lemma registry_ok_run: "registry_ok ws \<Longrightarrow> registry_ok (run dec cs ws)"
  by (induction cs arbitrary: ws) (auto simp: registry_ok_exec)

lemma registry_ok_inj:
  "registry_ok ws \<Longrightarrow> (k, r) \<in> set (targets ws) \<Longrightarrow> (k', r) \<in> set (targets ws) \<Longrightarrow> k = k'"
proof -
  assume ok: "registry_ok ws" and a: "(k, r) \<in> set (targets ws)" and b: "(k', r) \<in> set (targets ws)"
  from ok have all: "\<forall>x \<in> set (targets ws). targetId (heap ws (snd x)) = fst x"
    by (auto simp: registry_ok_def)
  from all a have "targetId (heap ws r) = k" by force
  moreover from all b have "targetId (heap ws r) = k'" by force
  ultimately show "k = k'" by simp
qed



lemma registry_ok_twoTargets: "registry_ok twoTargets"
  unfolding twoTargets_def by (rule registry_ok_run [OF registry_ok_new])

section \<open>Target ids\<close>

lemma nextTargetId_exec: "nextTargetId ws \<le> nextTargetId (exec dec c ws)"
proof (cases c)
  case (Message msg)
  obtain res ws' where m: "onMessageReceived dec msg ws = (res, ws')"
    by (cases "onMessageReceived dec msg ws")
  with Message onMessageReceived_frame [OF m] show ?thesis
    by (simp add: dispatch_frame_def)
qed (auto simp: open'_def close_def addTarget_def removeTarget_def stream_onOpen_def
      stream_onClose_def Let_def split: option.splits)

lemma addTarget_Return:
  "fst (addTarget info ws) = Return p \<Longrightarrow>
     p = AddTargetPromise (allocated ws) (nextTargetId ws)
     \<and> nextTargetId (snd (addTarget info ws)) = nextTargetId ws + 1"
  by (auto simp: addTarget_def Let_def split: option.splits if_splits)

lemma addTargetCalls_lower:
  "(r, tid) \<in> set (addTargetCalls dec cs ws) \<Longrightarrow> nextTargetId ws \<le> tid"
proof (induction cs arbitrary: ws)
  case Nil
  then show ?case by simp
next
  case (Cons c cs)
  have rest: "(r, tid) \<in> set (addTargetCalls dec cs (exec dec c ws)) \<Longrightarrow> nextTargetId ws \<le> tid"
    using Cons.IH [of "exec dec c ws"] nextTargetId_exec [of ws dec c] by linarith
  show ?case
  proof (cases c)
    case (AddTarget info)
    show ?thesis
    proof (cases "fst (addTarget info ws)")
      case (Throw e)
      with AddTarget Cons.prems rest show ?thesis by simp
    next
      case (Return p)
      with AddTarget Cons.prems rest addTarget_Return [OF Return] show ?thesis by auto
    qed
  qed (use Cons.prems rest in auto)
qed

lemma addTargetCalls_sorted: "sorted_wrt (<) (map snd (addTargetCalls dec cs ws))"
proof (induction cs arbitrary: ws)
  case Nil
  then show ?case by simp
next
  case (Cons c cs)
  show ?case
  proof (cases c)
    case (AddTarget info)
    have lower: "\<And>r tid. (r, tid) \<in> set (addTargetCalls dec cs (snd (addTarget info ws)))
        \<Longrightarrow> nextTargetId (snd (addTarget info ws)) \<le> tid"
      by (rule addTargetCalls_lower)
    show ?thesis
    proof (cases "fst (addTarget info ws)")
      case (Throw e)
      with AddTarget Cons.IH show ?thesis by simp
    next
      case (Return p)
      from addTarget_Return [OF Return] lower
      have "\<And>r tid. (r, tid) \<in> set (addTargetCalls dec cs (snd (addTarget info ws)))
          \<Longrightarrow> nextTargetId ws < tid"
        by fastforce
      with AddTarget Return addTarget_Return [OF Return] Cons.IH show ?thesis
        by (auto simp: sorted_wrt_append)
    qed
  qed (use Cons.IH in auto)
qed

lemma returnedIds_sorted: "sorted_wrt (<) (returnedIds dec cs ws)"
proof -
  have "sorted_wrt (\<lambda>a b. snd a < snd b) (addTargetCalls dec cs ws)"
    using addTargetCalls_sorted [of dec cs ws] by (simp add: sorted_wrt_map)
  then have "sorted_wrt (\<lambda>a b. snd a < snd b)
     (filter (\<lambda>(r, tid). addedDeferred (heap (run dec cs ws) r) = Resolved ()) (addTargetCalls dec cs ws))"
    by (rule sorted_wrt_filter)
  then show ?thesis by (simp add: returnedIds_def sorted_wrt_map)
qed

text \<open>
  Claim C10. \<^verbatim>\<open>addTarget\<close> increments the counter before its checks: a call on a controller
  that was never opened, or is closed, rejects with a \<^verbatim>\<open>WatchError\<close> and leaves the
  controller as it was but for the counter, which is one higher. A call that passes the
  checks takes the value of the counter as its id. So along any sequence of calls and
  events the ids of the calls that pass the checks are strictly increasing in call order,
  and so are the ids of the handles returned; and they need not be contiguous: there is a
  sequence that returns the handle of id 2 alone, the failed first call having consumed
  id 1, and one that returns the handles of ids 1 and 3 alone.
\<close>

theorem addTarget_consumes_id:
  "(stream ws = None \<or> closed ws \<longrightarrow>
      (\<exists>m. addTarget info ws
             = (Throw (WatchError m), ws\<lparr> nextTargetId := nextTargetId ws + 1 \<rparr>)))
   \<and> (stream ws \<noteq> None \<and> \<not> closed ws \<longrightarrow>
        fst (addTarget info ws) = Return (AddTargetPromise (allocated ws) (nextTargetId ws))
        \<and> nextTargetId (snd (addTarget info ws)) = nextTargetId ws + 1)
   \<and> sorted_wrt (<) (map snd (addTargetCalls dec cs ws))
   \<and> sorted_wrt (<) (returnedIds dec cs ws)
   \<and> (\<exists>cs'. returnedIds dec cs' (newWatchStream pid) = [2])
   \<and> (\<exists>cs'. returnedIds dec cs' (newWatchStream pid) = [1, 3])"
proof -
  have a: "stream ws = None \<or> closed ws \<longrightarrow>
      (\<exists>m. addTarget info ws
             = (Throw (WatchError m), ws\<lparr> nextTargetId := nextTargetId ws + 1 \<rparr>))"
    using addTarget_throws by blast
  have b: "stream ws \<noteq> None \<and> \<not> closed ws \<longrightarrow>
        fst (addTarget info ws) = Return (AddTargetPromise (allocated ws) (nextTargetId ws))
        \<and> nextTargetId (snd (addTarget info ws)) = nextTargetId ws + 1"
    by (auto simp: addTarget_def Let_def)
  let ?add = "\<lambda>ids. Message \<lparr> targetChange =
      Some \<lparr> tc_targetIds = Some ids, cause = None, targetChangeType = Some ''ADD'',
             tc_resumeToken = None \<rparr>,
      documentChange = None, documentRemove = None, documentDelete = None, filter_msg = None \<rparr>"
  let ?err = "\<lambda>ids. Message \<lparr> targetChange =
      Some \<lparr> tc_targetIds = Some ids, cause = Some (Status 5 ''not found''),
             targetChangeType = None, tc_resumeToken = None \<rparr>,
      documentChange = None, documentRemove = None, documentDelete = None, filter_msg = None \<rparr>"
  have c: "returnedIds dec [AddTarget info, Open, AddTarget info, ?add []] (newWatchStream pid) = [2]"
    by (simp add: returnedIds_def newWatchStream_def addTarget_def open'_def
        onMessageReceived_def onTargetChange_def targetStatesForTargetIds_def
        targetChangeBody_def applyAt_def onAdded_def newTargetState_def sendListenRequest_def
        Let_def)
  have d: "returnedIds dec
      [Open, AddTarget info, AddTarget info, AddTarget info, ?add [1], ?err [2], ?add [3]]
      (newWatchStream pid) = [1, 3]"
    by (simp add: returnedIds_def newWatchStream_def addTarget_def open'_def
        onMessageReceived_def onTargetChange_def targetStatesForTargetIds_def
        targetChangeBody_def applyAt_def onAdded_def onError_def newTargetState_def
        sendListenRequest_def Let_def)
  from c have c': "\<exists>cs'. returnedIds dec cs' (newWatchStream pid) = [2]" by blast
  from d have d': "\<exists>cs'. returnedIds dec cs' (newWatchStream pid) = [1, 3]" by blast
  from a b c' d' addTargetCalls_sorted [of dec cs ws] returnedIds_sorted [of dec cs ws]
  show ?thesis by blast
qed

theorem addTarget_consumes_id_witness:
  "addTarget \<lparr> projectId = ''p'', collectionId = ''c'', keyFilter = ''k'', valueFilter = ''v'',
               resume = None \<rparr> (newWatchStream ''p'')
     = (Throw (WatchError AddTargetBeforeOpen), (newWatchStream ''p'')\<lparr> nextTargetId := 2 \<rparr>)
   \<and> fst (addTarget \<lparr> projectId = ''p'', collectionId = ''c'', keyFilter = ''k'',
                      valueFilter = ''v'', resume = None \<rparr>
            (run (\<lambda>s. [])
               [AddTarget \<lparr> projectId = ''p'', collectionId = ''c'', keyFilter = ''k'',
                            valueFilter = ''v'', resume = None \<rparr>, Open]
               (newWatchStream ''p'')))
       = Return (AddTargetPromise 0 2)"
  using addTarget_consumes_id [where ws = "newWatchStream ''p''"
      and info = "\<lparr> projectId = ''p'', collectionId = ''c'', keyFilter = ''k'',
                     valueFilter = ''v'', resume = None \<rparr>"]
    addTarget_consumes_id [where ws = "run (\<lambda>s. [])
               [AddTarget \<lparr> projectId = ''p'', collectionId = ''c'', keyFilter = ''k'',
                            valueFilter = ''v'', resume = None \<rparr>, Open]
               (newWatchStream ''p'')"
      and info = "\<lparr> projectId = ''p'', collectionId = ''c'', keyFilter = ''k'',
                     valueFilter = ''v'', resume = None \<rparr>"]
  by (simp add: newWatchStream_def addTarget_def open'_def)

section \<open>Document changes\<close>

lemma forEach_applyAt_targets:
  "forEachTarget (applyAt f) rs ws = (res, ws') \<Longrightarrow> targets ws' = targets ws"
  by (rule forEachTarget_rel [where body = "applyAt f" and R = "\<lambda>a b. targets b = targets a"])
     (auto simp: applyAt_eq)

lemma forEach_applyAt_Cons:
  "forEachTarget (applyAt f) (a # rs) ws =
     (case fst (f (heap ws a)) of
        Throw e \<Rightarrow> (Throw e, ws\<lparr> heap := (heap ws)(a := snd (f (heap ws a))) \<rparr>)
      | Return u \<Rightarrow>
          forEachTarget (applyAt f) rs (ws\<lparr> heap := (heap ws)(a := snd (f (heap ws a))) \<rparr>))"
proof -
  have "applyAt f a ws = (fst (f (heap ws a)), ws\<lparr> heap := (heap ws)(a := snd (f (heap ws a))) \<rparr>)"
    by (rule applyAt_eq)
  then show ?thesis by (simp split: result.splits)
qed

lemma forEach_applyAt_untouched:
  "forEachTarget (applyAt f) rs ws = (res, ws') \<Longrightarrow> r \<notin> set rs \<Longrightarrow> heap ws' r = heap ws r"
proof (induction rs arbitrary: ws)
  case Nil
  then show ?case by simp
next
  case (Cons a rs)
  show ?case
  proof (cases "fst (f (heap ws a))")
    case (Throw e)
    with Cons.prems show ?thesis by (auto simp: forEach_applyAt_Cons simp del: forEachTarget.simps)
  next
    case (Return u)
    with Cons.prems have
      "forEachTarget (applyAt f) rs (ws\<lparr> heap := (heap ws)(a := snd (f (heap ws a))) \<rparr>) = (res, ws')"
      by (simp add: forEach_applyAt_Cons del: forEachTarget.simps)
    from Cons.IH [OF this] Cons.prems show ?thesis by simp
  qed
qed

lemma forEach_applyAt_preserve:
  assumes pres: "\<And>t. P t \<Longrightarrow> P (snd (f t))"
  shows "forEachTarget (applyAt f) rs ws = (res, ws') \<Longrightarrow> P (heap ws r) \<Longrightarrow> P (heap ws' r)"
proof (induction rs arbitrary: ws)
  case Nil
  then show ?case by simp
next
  case (Cons a rs)
  let ?ws1 = "ws\<lparr> heap := (heap ws)(a := snd (f (heap ws a))) \<rparr>"
  have p1: "P (heap ?ws1 r)" using Cons.prems(2) pres [of "heap ws a"] by auto
  show ?case
  proof (cases "fst (f (heap ws a))")
    case (Throw e)
    with Cons.prems p1 show ?thesis by (auto simp: forEach_applyAt_Cons simp del: forEachTarget.simps)
  next
    case (Return u)
    with Cons.prems have "forEachTarget (applyAt f) rs ?ws1 = (res, ws')"
      by (simp add: forEach_applyAt_Cons del: forEachTarget.simps)
    from Cons.IH [OF this p1] show ?thesis .
  qed
qed

lemma forEach_applyAt_establish:
  assumes est: "\<And>t. fst (f t) = Return () \<Longrightarrow> P (snd (f t))"
      and pres: "\<And>t. P t \<Longrightarrow> P (snd (f t))"
  shows "forEachTarget (applyAt f) rs ws = (Return (), ws') \<Longrightarrow> r \<in> set rs \<Longrightarrow> P (heap ws' r)"
proof (induction rs arbitrary: ws)
  case Nil
  then show ?case by simp
next
  case (Cons a rs)
  let ?ws1 = "ws\<lparr> heap := (heap ws)(a := snd (f (heap ws a))) \<rparr>"
  show ?case
  proof (cases "fst (f (heap ws a))")
    case (Throw e)
    with Cons.prems show ?thesis by (auto simp: forEach_applyAt_Cons simp del: forEachTarget.simps)
  next
    case (Return u)
    with Cons.prems have loop: "forEachTarget (applyAt f) rs ?ws1 = (Return (), ws')"
      by (simp add: forEach_applyAt_Cons del: forEachTarget.simps)
    show ?thesis
    proof (cases "r = a")
      case True
      have p: "P (heap ?ws1 r)" using True Return est by simp
      show ?thesis
        by (rule forEach_applyAt_preserve [where P = P and f = f, OF pres loop p])
    next
      case False
      with Cons.prems have "r \<in> set rs" by simp
      with loop show ?thesis by (rule Cons.IH)
    qed
  qed
qed

lemma targetStates_named:
  assumes "targetStatesForTargetIds ids b ws = Return rs" and "tid \<in> set ids"
  shows "\<exists>r. map_of (targets ws) tid = Some r \<and> r \<in> set rs
            \<and> rs = map (\<lambda>i. the (map_of (targets ws) i)) ids"
proof -
  from assms obtain rs0 where g: "getAll (targets ws) ids = Return rs0"
    by (auto simp: targetStatesForTargetIds_def split: result.splits)
  from getAll_Return [OF g] assms(2) have "rs0 \<noteq> []" by auto
  with assms(1) g have "rs = rs0" by (simp add: targetStatesForTargetIds_def)
  with getAll_Return [OF g] assms(2) show ?thesis by force
qed

text \<open>
  Claim C7. When a document change that names the same target id among its \<^verbatim>\<open>targetIds\<close>
  and among its \<^verbatim>\<open>removedTargetIds\<close> is processed to its end, the object registered under
  that id first took part in the loop of \<^verbatim>\<open>onDocumentChanged\<close> calls, after which its set
  held the name of the document, and then in the loop of \<^verbatim>\<open>onDocumentRemoved\<close> calls, after
  which its set does not hold the name.
\<close>

theorem document_change_add_then_remove:
  assumes "onDocumentChange dc ws = (Return (), ws')"
      and "dc_targetIds dc = Some adds" and "dc_removedTargetIds dc = Some rems"
      and "tid \<in> set adds" and "tid \<in> set rems"
  shows "\<exists>r ws1. map_of (targets ws) tid = Some r \<and> map_of (targets ws') tid = Some r
           \<and> forEachTarget (applyAt (onDocumentChanged (dc_document_name dc)))
                (map (\<lambda>i. the (map_of (targets ws) i)) adds) ws = (Return (), ws1)
           \<and> dc_document_name dc \<in> accumulatedDocumentNames (heap ws1 r)
           \<and> forEachTarget (applyAt (onDocumentRemoved (dc_document_name dc)))
                (map (\<lambda>i. the (map_of (targets ws) i)) rems) ws1 = (Return (), ws')
           \<and> dc_document_name dc \<notin> accumulatedDocumentNames (heap ws' r)"
proof -
  let ?n = "dc_document_name dc"
  from assms(1,2) obtain rs1 where t1: "targetStatesForTargetIds adds True ws = Return rs1"
    by (auto simp: onDocumentChange_def split: result.splits)
  from assms(1,2) t1 obtain ws1 where
    l1: "forEachTarget (applyAt (onDocumentChanged ?n)) rs1 ws = (Return (), ws1)"
    by (auto simp: onDocumentChange_def split: result.splits prod.splits)
  from assms(1,2,3) t1 l1 obtain rs2 where
    t2: "targetStatesForTargetIds rems False ws1 = Return rs2"
    by (auto simp: onDocumentChange_def split: result.splits)
  from assms(1,2,3) t1 l1 t2 have
    l2: "forEachTarget (applyAt (onDocumentRemoved ?n)) rs2 ws1 = (Return (), ws')"
    by (simp add: onDocumentChange_def)
  have tg1: "targets ws1 = targets ws" using l1 by (rule forEach_applyAt_targets)
  have tg2: "targets ws' = targets ws1" using l2 by (rule forEach_applyAt_targets)
  from targetStates_named [OF t1 assms(4)] obtain r where
    r: "map_of (targets ws) tid = Some r" "r \<in> set rs1"
       "rs1 = map (\<lambda>i. the (map_of (targets ws) i)) adds"
    by blast
  from targetStates_named [OF t2 assms(5)] r(1) tg1 have
    r2: "r \<in> set rs2" "rs2 = map (\<lambda>i. the (map_of (targets ws) i)) rems"
    by auto
  have inn: "?n \<in> accumulatedDocumentNames (heap ws1 r)"
    using l1 r(2)
    by (rule forEach_applyAt_establish [where P = "\<lambda>t. ?n \<in> accumulatedDocumentNames t", rotated 2])
       (auto simp: onDocumentChanged_def split: if_splits)
  have out: "?n \<notin> accumulatedDocumentNames (heap ws' r)"
    using l2 r2(1)
    by (rule forEach_applyAt_establish [where P = "\<lambda>t. ?n \<notin> accumulatedDocumentNames t", rotated 2])
       (auto simp: onDocumentRemoved_def split: if_splits)
  from r l1 l2 r2 inn out tg1 tg2 show ?thesis by auto
qed

lemmas eval_defs = newWatchStream_def open'_def close_def addTarget_def removeTarget_def
  onMessageReceived_def onTargetChange_def onDocumentChange_def targetStatesForTargetIds_def
  targetChangeBody_def applyAt_def newTargetState_def sendListenRequest_def Let_def
  exampleInfo_def targetChangeMsg_def documentChangeMsg_def exampleTargetChange_def
  exampleDocumentChange_def
  onAdded_def onRemoved_def onCurrent_def onReset_def onNoChange_def
  onDocumentChanged_def onDocumentRemoved_def onError_def

theorem document_change_add_then_remove_witness:
  "fst (onDocumentChange
          \<lparr> dc_targetIds = Some [1], dc_removedTargetIds = Some [1], dc_document_name = ''docs/a'' \<rparr>
          (run (\<lambda>s. []) [Open, AddTarget exampleInfo, Message (targetChangeMsg [1] ''ADD'')]
             (newWatchStream ''p''))) = Return ()
   \<and> (\<exists>r. map_of (targets (run (\<lambda>s. [])
                [Open, AddTarget exampleInfo, Message (targetChangeMsg [1] ''ADD'')]
                (newWatchStream ''p''))) 1 = Some r
         \<and> ''docs/a'' \<notin> accumulatedDocumentNames
              (heap (snd (onDocumentChange
                 \<lparr> dc_targetIds = Some [1], dc_removedTargetIds = Some [1],
                   dc_document_name = ''docs/a'' \<rparr>
                 (run (\<lambda>s. []) [Open, AddTarget exampleInfo, Message (targetChangeMsg [1] ''ADD'')]
                    (newWatchStream ''p'')))) r))"
proof -
  let ?ws = "run (\<lambda>s. []) [Open, AddTarget exampleInfo, Message (targetChangeMsg [1] ''ADD'')]
               (newWatchStream ''p'')"
  let ?dc = "\<lparr> dc_targetIds = Some [1], dc_removedTargetIds = Some [1],
               dc_document_name = ''docs/a'' \<rparr>"
  have h: "onDocumentChange ?dc ?ws = (Return (), snd (onDocumentChange ?dc ?ws))"
    by (simp add: eval_defs)
  have a: "dc_targetIds ?dc = Some [1]" and b: "dc_removedTargetIds ?dc = Some [1]"
    and c: "(1::int) \<in> set [1]" and n: "dc_document_name ?dc = ''docs/a''"
    by simp_all
  from document_change_add_then_remove [OF h a b c c] obtain r where
    "map_of (targets ?ws) 1 = Some r"
    "dc_document_name ?dc \<notin> accumulatedDocumentNames (heap (snd (onDocumentChange ?dc ?ws)) r)"
    by blast
  with n have "\<exists>r. map_of (targets ?ws) 1 = Some r
          \<and> ''docs/a'' \<notin> accumulatedDocumentNames (heap (snd (onDocumentChange ?dc ?ws)) r)"
    by metis
  moreover from h have "fst (onDocumentChange ?dc ?ws) = Return ()"
    by (metis fst_conv)
  ultimately show ?thesis by blast
qed

section \<open>Target changes\<close>



lemma targetChangeBody_REMOVE:
  "cause tc = None \<Longrightarrow> targetChangeType tc = Some ''REMOVE'' \<Longrightarrow>
   targetChangeBody tc r ws =
     (case fst (onRemoved (heap ws r)) of
        Throw e \<Rightarrow> (Throw e, ws\<lparr> heap := (heap ws)(r := snd (onRemoved (heap ws r))) \<rparr>)
      | Return u \<Rightarrow>
          (Return (),
           ws\<lparr> heap := (heap ws)(r := snd (onRemoved (heap ws r))),
               targets := AList.delete (targetId (heap ws r)) (targets ws) \<rparr>))"
  by (simp add: targetChangeBody_def applyAt_eq split: result.splits)










section \<open>Removal of a target\<close>

lemma forEach_REMOVE_evicts:
  assumes c: "cause tc = None" and t: "targetChangeType tc = Some ''REMOVE''"
  shows "forEachTarget (targetChangeBody tc) rs ws = (Return (), ws') \<Longrightarrow> r \<in> set rs \<Longrightarrow>
           targetId (heap ws r) \<notin> fst ` set (targets ws')"
proof (induction rs arbitrary: ws)
  case Nil
  then show ?case by simp
next
  case (Cons a rs)
  obtain res1 ws1 where b: "targetChangeBody tc a ws = (res1, ws1)"
    by (cases "targetChangeBody tc a ws")
  from Cons.prems(1) b obtain u where r1: "res1 = Return u"
    by (cases res1) auto
  with Cons.prems(1) b have loop: "forEachTarget (targetChangeBody tc) rs ws1 = (Return (), ws')"
    by simp
  have f1: "dispatch_frame ws ws1" using b by (rule targetChangeBody_frame)
  have f2: "dispatch_frame ws1 ws'" using loop by (rule forEach_targetChange_frame)
  show ?case
  proof (cases "r = a")
    case True
    from b r1 have "targets ws1 = AList.delete (targetId (heap ws a)) (targets ws)"
      by (auto simp: targetChangeBody_REMOVE [OF c t] split: result.splits)
    then have "targetId (heap ws a) \<notin> fst ` set (targets ws1)"
      by (auto simp: AList.delete_eq)
    with f2 True show ?thesis
      unfolding dispatch_frame_def by (meson image_mono subsetD)
  next
    case False
    with Cons.prems(2) have "r \<in> set rs" by simp
    from Cons.IH [OF loop this] f1 show ?thesis
      by (simp add: dispatch_frame_def)
  qed
qed

lemma keys_exec:
  "k \<in> fst ` set (targets (exec dec c ws)) \<Longrightarrow>
     k \<in> fst ` set (targets ws) \<or> nextTargetId ws \<le> k"
proof (cases c)
  case (Message msg)
  obtain res ws' where m: "onMessageReceived dec msg ws = (res, ws')"
    by (cases "onMessageReceived dec msg ws")
  assume "k \<in> fst ` set (targets (exec dec c ws))"
  with Message m onMessageReceived_frame [OF m] show ?thesis
    by (auto simp: dispatch_frame_def split: if_splits)
next
  case (AddTarget info)
  assume "k \<in> fst ` set (targets (exec dec c ws))"
  with AddTarget show ?thesis
    by (auto simp: addTarget_def Let_def dom_update split: option.splits if_splits)
qed (auto simp: open'_def close_def removeTarget_def stream_onOpen_def
      stream_onClose_def Let_def split: option.splits if_splits)

lemma evicted_run:
  "k \<notin> fst ` set (targets ws) \<Longrightarrow> k < nextTargetId ws \<Longrightarrow>
     k \<notin> fst ` set (targets (run dec cs ws))"
proof (induction cs arbitrary: ws)
  case Nil
  then show ?case by simp
next
  case (Cons c cs)
  have "k \<notin> fst ` set (targets (exec dec c ws))"
    using keys_exec [of k dec c ws] Cons.prems by auto
  moreover have "k < nextTargetId (exec dec c ws)"
    using nextTargetId_exec [of ws dec c] Cons.prems(2) by linarith
  ultimately show ?case using Cons.IH by simp
qed

lemma map_of_None_iff: "map_of xs k = None \<longleftrightarrow> k \<notin> fst ` set xs"
  by (simp add: map_of_eq_None_iff)

text \<open>
  Claim C8. \<^verbatim>\<open>removeTarget\<close> with an id that is not registered throws a \<^verbatim>\<open>WatchError\<close>. When
  a target change of type \<^verbatim>\<open>REMOVE\<close> without a cause has been processed to its end on a
  controller that satisfies the registry invariant, every id it addressed (listed, or
  registered when the list is empty) is no longer registered, and after any further
  sequence of calls and events \<^verbatim>\<open>getInitialSnapshot\<close> and \<^verbatim>\<open>getExistenceFilter\<close> for that id
  throw the \<^verbatim>\<open>WatchError\<close> of an unknown target id.
\<close>

theorem remove_evicts:
  "(map_of (targets ws) tid = None \<longrightarrow> (\<exists>m. removeTarget tid ws = (Throw (WatchError m), ws)))
   \<and> (registry_ok ws \<and> cause tc = None \<and> targetChangeType tc = Some ''REMOVE''
        \<and> onTargetChange tc ws = (Return (), ws')
        \<and> (tid \<in> set (case tc_targetIds tc of None \<Rightarrow> [] | Some ids \<Rightarrow> ids)
            \<or> (case tc_targetIds tc of None \<Rightarrow> [] | Some ids \<Rightarrow> ids) = []
               \<and> tid \<in> fst ` set (targets ws)) \<longrightarrow>
      map_of (targets ws') tid = None
      \<and> (\<forall>cs. getInitialSnapshot tid (run dec cs ws') = Throw (WatchError (UnknownTargetId tid))
             \<and> getExistenceFilter tid (run dec cs ws') = Throw (WatchError (UnknownTargetId tid))))"
proof -
  have a: "map_of (targets ws) tid = None \<longrightarrow>
      (\<exists>m. removeTarget tid ws = (Throw (WatchError m), ws))"
    by (auto simp: removeTarget_def split: option.splits)
  have b: "registry_ok ws \<and> cause tc = None \<and> targetChangeType tc = Some ''REMOVE''
        \<and> onTargetChange tc ws = (Return (), ws')
        \<and> (tid \<in> set (case tc_targetIds tc of None \<Rightarrow> [] | Some ids \<Rightarrow> ids)
            \<or> (case tc_targetIds tc of None \<Rightarrow> [] | Some ids \<Rightarrow> ids) = []
               \<and> tid \<in> fst ` set (targets ws)) \<longrightarrow>
      map_of (targets ws') tid = None
      \<and> (\<forall>cs. getInitialSnapshot tid (run dec cs ws') = Throw (WatchError (UnknownTargetId tid))
             \<and> getExistenceFilter tid (run dec cs ws') = Throw (WatchError (UnknownTargetId tid)))"
  proof (intro impI, elim conjE)
    let ?ids = "case tc_targetIds tc of None \<Rightarrow> [] | Some ids \<Rightarrow> ids"
    assume ok: "registry_ok ws" and c: "cause tc = None"
      and t: "targetChangeType tc = Some ''REMOVE''"
      and run: "onTargetChange tc ws = (Return (), ws')"
      and named: "tid \<in> set ?ids \<or> ?ids = [] \<and> tid \<in> fst ` set (targets ws)"
    from run obtain rs where ts: "targetStatesForTargetIds ?ids True ws = Return rs"
      and loop: "forEachTarget (targetChangeBody tc) rs ws = (Return (), ws')"
      by (auto simp: onTargetChange_def split: result.splits)
    have "\<exists>r. (tid, r) \<in> set (targets ws) \<and> r \<in> set rs"
    proof (cases "tid \<in> set ?ids")
      case True
      from targetStates_named [OF ts True] show ?thesis
        by (blast dest: map_of_SomeD)
    next
      case False
      with named have e: "?ids = []" and k: "tid \<in> fst ` set (targets ws)" by auto
      from ts e have "rs = map snd (targets ws)"
        by (simp add: targetStatesForTargetIds_def)
      with k show ?thesis by force
    qed
    then obtain r where reg: "(tid, r) \<in> set (targets ws)" and rin: "r \<in> set rs" by blast
    from ok reg have tid: "targetId (heap ws r) = tid" and lt: "tid < nextTargetId ws"
      by (auto simp: registry_ok_def)
    from forEach_REMOVE_evicts [OF c t loop rin] tid
    have gone: "tid \<notin> fst ` set (targets ws')" by simp
    have "nextTargetId ws' = nextTargetId ws"
      using forEach_targetChange_frame [OF loop] by (simp add: dispatch_frame_def)
    with lt have lt': "tid < nextTargetId ws'" by simp
    have "\<And>cs. map_of (targets (run dec cs ws')) tid = None"
      using evicted_run [OF gone lt'] by (simp add: map_of_None_iff)
    then have "\<forall>cs. getInitialSnapshot tid (run dec cs ws') = Throw (WatchError (UnknownTargetId tid))
             \<and> getExistenceFilter tid (run dec cs ws') = Throw (WatchError (UnknownTargetId tid))"
      by (simp add: getInitialSnapshot_def getExistenceFilter_def)
    with gone show "map_of (targets ws') tid = None
      \<and> (\<forall>cs. getInitialSnapshot tid (run dec cs ws') = Throw (WatchError (UnknownTargetId tid))
             \<and> getExistenceFilter tid (run dec cs ws') = Throw (WatchError (UnknownTargetId tid)))"
      by (simp add: map_of_None_iff)
  qed
  from a b show ?thesis by blast
qed

theorem remove_evicts_witness:
  "(\<exists>m. removeTarget 7 twoTargets = (Throw (WatchError m), twoTargets))
   \<and> getInitialSnapshot 1 (snd (onTargetChange (exampleTargetChange [1] ''REMOVE'') twoTargets))
       = Throw (WatchError (UnknownTargetId 1))
   \<and> getExistenceFilter 1 (snd (onTargetChange (exampleTargetChange [1] ''REMOVE'') twoTargets))
       = Throw (WatchError (UnknownTargetId 1))"
proof -
  let ?tc = "exampleTargetChange [1] ''REMOVE''"
  let ?ws' = "snd (onTargetChange ?tc twoTargets)"
  have h0: "map_of (targets twoTargets) 7 = None"
    by code_simp
  have "fst (onTargetChange ?tc twoTargets) = Return ()"
    by code_simp
  then have r: "onTargetChange ?tc twoTargets = (Return (), ?ws')"
    by (metis prod.collapse)
  have hb: "registry_ok twoTargets \<and> cause ?tc = None \<and> targetChangeType ?tc = Some ''REMOVE''
        \<and> onTargetChange ?tc twoTargets = (Return (), ?ws')
        \<and> (1 \<in> set (case tc_targetIds ?tc of None \<Rightarrow> [] | Some ids \<Rightarrow> ids)
            \<or> (case tc_targetIds ?tc of None \<Rightarrow> [] | Some ids \<Rightarrow> ids) = []
               \<and> 1 \<in> fst ` set (targets twoTargets))"
    by (intro conjI registry_ok_twoTargets r) (simp_all add: exampleTargetChange_def)
  note a = remove_evicts [where ws = twoTargets and tid = 7, THEN conjunct1, THEN mp, OF h0]
  note b = remove_evicts [where ws = twoTargets and tid = 1 and tc = ?tc and ws' = ?ws'
      and dec = "\<lambda>s. []", THEN conjunct2, THEN mp, OF hb, THEN conjunct2, THEN spec, of "[]",
      unfolded run.simps(1)]
  from a b show ?thesis by (intro conjI) (assumption, erule conjunct1, erule conjunct2)
qed

section \<open>Document changes with an empty list of target ids\<close>

text \<open>
  Claim C1, as the code has it. \<^verbatim>\<open>_onDocumentChange\<close> resolves \<^verbatim>\<open>targetIds\<close> with
  \<^verbatim>\<open>allTargetsIfEmpty = true\<close> and \<^verbatim>\<open>removedTargetIds\<close> with \<^verbatim>\<open>false\<close>. So an absent or empty
  \<^verbatim>\<open>targetIds\<close> list resolves to the objects of all registered targets: when the message
  is processed to its end on a controller that satisfies the registry invariant, the set
  of every registered target holds the name of the document, unless the target is listed
  in \<^verbatim>\<open>removedTargetIds\<close>. An absent or empty \<^verbatim>\<open>removedTargetIds\<close> list resolves to no object:
  \<^verbatim>\<open>_onDocumentRemove\<close> and \<^verbatim>\<open>_onDocumentDelete\<close> then return and leave the controller as it
  was, and a document change with both lists absent or empty is the loop of
  \<^verbatim>\<open>onDocumentChanged\<close> calls over all registered objects and nothing more.
\<close>

theorem document_change_empty_targetIds_broadcast:
  "((dc_targetIds dc = None \<or> dc_targetIds dc = Some []) \<longrightarrow>
      targetStatesForTargetIds (case dc_targetIds dc of None \<Rightarrow> [] | Some ids \<Rightarrow> ids) True ws
        = Return (map snd (targets ws)))
   \<and> ((dc_targetIds dc = None \<or> dc_targetIds dc = Some []) \<and> registry_ok ws
        \<and> onDocumentChange dc ws = (Return (), ws') \<longrightarrow>
      (\<forall>(k, r) \<in> set (targets ws).
         k \<in> set (case dc_removedTargetIds dc of None \<Rightarrow> [] | Some ids \<Rightarrow> ids)
         \<or> dc_document_name dc \<in> accumulatedDocumentNames (heap ws' r)))
   \<and> ((dc_removedTargetIds dc = None \<or> dc_removedTargetIds dc = Some []) \<longrightarrow>
      targetStatesForTargetIds
          (case dc_removedTargetIds dc of None \<Rightarrow> [] | Some ids \<Rightarrow> ids) False ws
        = Return [])
   \<and> ((dr_removedTargetIds dr = None \<or> dr_removedTargetIds dr = Some []) \<longrightarrow>
      onDocumentRemove dr ws = (Return (), ws) \<and> onDocumentDelete dr ws = (Return (), ws))
   \<and> ((dc_targetIds dc = None \<or> dc_targetIds dc = Some [])
        \<and> (dc_removedTargetIds dc = None \<or> dc_removedTargetIds dc = Some []) \<longrightarrow>
      onDocumentChange dc ws
        = forEachTarget (applyAt (onDocumentChanged (dc_document_name dc)))
            (map snd (targets ws)) ws)"
proof -
  let ?n = "dc_document_name dc"
  let ?adds = "case dc_targetIds dc of None \<Rightarrow> [] | Some ids \<Rightarrow> ids"
  let ?rems = "case dc_removedTargetIds dc of None \<Rightarrow> [] | Some ids \<Rightarrow> ids"
  have a: "(dc_targetIds dc = None \<or> dc_targetIds dc = Some []) \<longrightarrow>
      targetStatesForTargetIds ?adds True ws = Return (map snd (targets ws))"
    by (auto simp: targetStatesForTargetIds_def)
  have c: "(dc_removedTargetIds dc = None \<or> dc_removedTargetIds dc = Some []) \<longrightarrow>
      targetStatesForTargetIds ?rems False ws = Return []"
    by (auto simp: targetStatesForTargetIds_def)
  have b: "(dc_targetIds dc = None \<or> dc_targetIds dc = Some []) \<and> registry_ok ws
        \<and> onDocumentChange dc ws = (Return (), ws') \<longrightarrow>
      (\<forall>(k, r) \<in> set (targets ws).
         k \<in> set ?rems \<or> ?n \<in> accumulatedDocumentNames (heap ws' r))"
  proof (intro impI, elim conjE)
    assume e: "dc_targetIds dc = None \<or> dc_targetIds dc = Some []" and ok: "registry_ok ws"
      and run: "onDocumentChange dc ws = (Return (), ws')"
    from a e have t1: "targetStatesForTargetIds ?adds True ws = Return (map snd (targets ws))"
      by blast
    from run t1 obtain ws1 where
      l1: "forEachTarget (applyAt (onDocumentChanged ?n)) (map snd (targets ws)) ws = (Return (), ws1)"
      by (auto simp: onDocumentChange_def split: result.splits prod.splits)
    from run t1 l1 obtain rs2 where
      t2: "targetStatesForTargetIds ?rems False ws1 = Return rs2"
      by (auto simp: onDocumentChange_def split: result.splits)
    from run t1 l1 t2 have
      l2: "forEachTarget (applyAt (onDocumentRemoved ?n)) rs2 ws1 = (Return (), ws')"
      by (simp add: onDocumentChange_def)
    have tg1: "targets ws1 = targets ws" using l1 by (rule forEach_applyAt_targets)
    from t2 have g: "getAll (targets ws) ?rems = Return rs2"
      by (auto simp: targetStatesForTargetIds_def tg1 split: result.splits if_splits)
    show "\<forall>(k, r) \<in> set (targets ws). k \<in> set ?rems \<or> ?n \<in> accumulatedDocumentNames (heap ws' r)"
    proof (clarify)
      fix k r
      assume reg: "(k, r) \<in> set (targets ws)" and nk: "?n \<notin> accumulatedDocumentNames (heap ws' r)"
      from reg have rin: "r \<in> set (map snd (targets ws))" by force
      have in1: "?n \<in> accumulatedDocumentNames (heap ws1 r)"
        by (rule forEach_applyAt_establish
              [where f = "onDocumentChanged ?n" and P = "\<lambda>t. ?n \<in> accumulatedDocumentNames t",
               OF _ _ l1 rin])
           (auto simp: onDocumentChanged_def split: if_splits)
      have "r \<in> set rs2"
      proof (rule ccontr)
        assume "r \<notin> set rs2"
        with l2 have "heap ws' r = heap ws1 r" by (rule forEach_applyAt_untouched)
        with in1 nk show False by simp
      qed
      with getAll_Return [OF g] obtain k' where k': "k' \<in> set ?rems"
        and r: "r = the (map_of (targets ws) k')" and some: "map_of (targets ws) k' \<noteq> None"
        by auto
      from r some have "(k', r) \<in> set (targets ws)" by (auto dest: map_of_SomeD)
      with ok reg have "k = k'" by (rule registry_ok_inj)
      with k' show "k \<in> set ?rems" by simp
    qed
  qed
  have d: "(dr_removedTargetIds dr = None \<or> dr_removedTargetIds dr = Some []) \<longrightarrow>
      onDocumentRemove dr ws = (Return (), ws) \<and> onDocumentDelete dr ws = (Return (), ws)"
    by (auto simp: onDocumentRemove_def onDocumentDelete_def targetStatesForTargetIds_def)
  have e: "(dc_targetIds dc = None \<or> dc_targetIds dc = Some [])
        \<and> (dc_removedTargetIds dc = None \<or> dc_removedTargetIds dc = Some []) \<longrightarrow>
      onDocumentChange dc ws
        = forEachTarget (applyAt (onDocumentChanged ?n)) (map snd (targets ws)) ws"
  proof (intro impI, elim conjE)
    assume ea: "dc_targetIds dc = None \<or> dc_targetIds dc = Some []"
      and er: "dc_removedTargetIds dc = None \<or> dc_removedTargetIds dc = Some []"
    from a ea have t1: "targetStatesForTargetIds ?adds True ws = Return (map snd (targets ws))"
      by blast
    from er have t2: "\<And>ws1. targetStatesForTargetIds ?rems False ws1 = Return []"
      by (auto simp: targetStatesForTargetIds_def)
    obtain res1 ws1 where
      l1: "forEachTarget (applyAt (onDocumentChanged ?n)) (map snd (targets ws)) ws = (res1, ws1)"
      by (cases "forEachTarget (applyAt (onDocumentChanged ?n)) (map snd (targets ws)) ws")
    show "onDocumentChange dc ws
        = forEachTarget (applyAt (onDocumentChanged ?n)) (map snd (targets ws)) ws"
      unfolding l1 using t1 t2 l1 by (cases res1) (simp_all add: onDocumentChange_def)
  qed
  show ?thesis by (intro conjI) (rule a b c d e)+
qed

theorem document_change_empty_targetIds_broadcast_witness:
  "''docs/a'' \<in> accumulatedDocumentNames
      (heap (snd (onDocumentChange (exampleDocumentChange [] [2] ''docs/a'') twoTargets)) 0)
   \<and> onDocumentRemove \<lparr> dr_removedTargetIds = Some [], dr_document = ''docs/a'' \<rparr> twoTargets
       = (Return (), twoTargets)
   \<and> onDocumentDelete \<lparr> dr_removedTargetIds = Some [], dr_document = ''docs/a'' \<rparr> twoTargets
       = (Return (), twoTargets)"
proof -
  let ?dc = "exampleDocumentChange [] [2] ''docs/a''"
  let ?ws' = "snd (onDocumentChange ?dc twoTargets)"
  let ?dr = "\<lparr> dr_removedTargetIds = Some [], dr_document = ''docs/a'' \<rparr>"
  have "fst (onDocumentChange ?dc twoTargets) = Return ()"
    by code_simp
  then have r: "onDocumentChange ?dc twoTargets = (Return (), ?ws')"
    by (metis prod.collapse)
  have reg: "(1, 0) \<in> set (targets twoTargets)"
    by code_simp
  have h: "(dc_targetIds ?dc = None \<or> dc_targetIds ?dc = Some []) \<and> registry_ok twoTargets
        \<and> onDocumentChange ?dc twoTargets = (Return (), ?ws')"
    by (intro conjI registry_ok_twoTargets r) (simp add: exampleDocumentChange_def)
  note b = document_change_empty_targetIds_broadcast [where dc = ?dc and ws = twoTargets
      and ws' = ?ws', THEN conjunct2, THEN conjunct1, THEN mp, OF h, THEN bspec, OF reg]
  have n: "dc_document_name ?dc = ''docs/a''"
    and rm: "(case dc_removedTargetIds ?dc of None \<Rightarrow> [] | Some ids \<Rightarrow> ids) = [2]"
    by (simp_all add: exampleDocumentChange_def)
  from b have c1: "''docs/a'' \<in> accumulatedDocumentNames (heap ?ws' 0)"
    unfolding n rm by simp
  have e: "dr_removedTargetIds ?dr = None \<or> dr_removedTargetIds ?dr = Some []"
    by simp
  note d = document_change_empty_targetIds_broadcast [where dr = ?dr and ws = twoTargets,
      THEN conjunct2, THEN conjunct2, THEN conjunct2, THEN conjunct1, THEN mp, OF e]
  from c1 d show ?thesis
    by (intro conjI) (assumption, erule conjunct1, erule conjunct2)
qed

text \<open>
  The claim as stated, that an empty \<^verbatim>\<open>targetIds\<close> list applies the addition to no target,
  fails on the controller with the two acknowledged targets: the change of document
  \<^verbatim>\<open>docs/a\<close> with both lists empty returns, and the set of target 1, empty before, holds
  the name afterwards.
\<close>

theorem document_change_empty_targetIds_counterexample:
  "dc_targetIds (exampleDocumentChange [] [] ''docs/a'') = Some []
   \<and> fst (onDocumentChange (exampleDocumentChange [] [] ''docs/a'') twoTargets) = Return ()
   \<and> map_of (targets twoTargets) 1 = Some 0
   \<and> accumulatedDocumentNames (heap twoTargets 0) = {}
   \<and> accumulatedDocumentNames
        (heap (snd (onDocumentChange (exampleDocumentChange [] [] ''docs/a'') twoTargets)) 0)
       = {''docs/a''}
   \<and> accumulatedDocumentNames
        (heap (snd (onDocumentChange (exampleDocumentChange [] [] ''docs/a'') twoTargets)) 0)
       \<noteq> accumulatedDocumentNames (heap twoTargets 0)"
  by code_simp

end
